(* ===== verification/Prelude.thy ===== *)
theory Prelude
  imports Main "HOL-Library.Sublist"
begin

text \<open>
  What every component shares: run-time panics of Go as values of a sum type, the sequencing of
  computations that may panic, loops over slices whose body may panic, and three interfaces stated
  as locales.  The first, \<open>invariant_system\<close>, is the contract of a component that is a state
  machine (initial states, steps, an invariant that the steps keep).  \<open>simulation\<close> extends it to a
  machine that implements an abstract one.  The third,
  \<open>redaction\<close>, is the contract of a family of passes that only remove information: each
  pass is idempotent, and no other pass undoes that.  Under that contract a whole sequence of
  passes is idempotent.
\<close>

named_theorems go_defs "definitions of the language primitives, unfolded together"
named_theorems go_splits "case distinctions on computations that may panic"

section \<open>Run-time panics\<close>

text \<open>
  A Go function that may panic returns a sum: \<open>Inl p\<close> is the panic \<open>p\<close> (the process dies,
  since the program never recovers one), \<open>Inr x\<close> is a normal return.  A Go \<open>error\<close> is an
  ordinary return value and never an \<open>Inl\<close>.
\<close>

datatype go_panic =
    NilDereference
  | SetUnexported
  | SetUnaddressable
  | MapKeyType
  | SendOnClosed
  | CloseOfClosed

type_synonym 'a go = "go_panic + 'a"

definition go_bind :: "'a go \<Rightarrow> ('a \<Rightarrow> 'b go) \<Rightarrow> 'b go" where
  "go_bind m f = (case m of Inl p \<Rightarrow> Inl p | Inr x \<Rightarrow> f x)"

definition go_map :: "('a \<Rightarrow> 'b) \<Rightarrow> 'a go \<Rightarrow> 'b go" where
  "go_map f m = (case m of Inl p \<Rightarrow> Inl p | Inr x \<Rightarrow> Inr (f x))"

text \<open>A loop over a slice that replaces every element; a panic in the body ends the loop.\<close>

primrec traverse :: "('a \<Rightarrow> 'b go) \<Rightarrow> 'a list \<Rightarrow> 'b list go" where
  "traverse f [] = Inr []"
| "traverse f (x # xs) =
     (case f x of
        Inl p \<Rightarrow> Inl p
      | Inr y \<Rightarrow> (case traverse f xs of Inl p \<Rightarrow> Inl p | Inr ys \<Rightarrow> Inr (y # ys)))"

lemma go_bind_simps [simp]:
  "go_bind (Inl p) f = Inl p"
  "go_bind (Inr x) f = f x"
  by (simp_all add: go_bind_def)

lemma go_map_simps [simp]:
  "go_map f (Inl p) = Inl p"
  "go_map f (Inr x) = Inr (f x)"
  by (simp_all add: go_map_def)

lemma go_bind_eq_Inr [simp]:
  "go_bind m f = Inr y \<longleftrightarrow> (\<exists>x. m = Inr x \<and> f x = Inr y)"
  by (cases m) auto

lemma go_map_eq_Inr [simp]:
  "go_map f m = Inr y \<longleftrightarrow> (\<exists>x. m = Inr x \<and> y = f x)"
  by (cases m) auto

lemma go_map_eq_Inl [simp]: "go_map f m = Inl p \<longleftrightarrow> m = Inl p"
  by (cases m) auto

lemma traverse_Inr_iff:
  "traverse f xs = Inr ys \<longleftrightarrow> list_all2 (\<lambda>x y. f x = Inr y) xs ys"
proof (induction xs arbitrary: ys)
  case Nil
  then show ?case by auto
next
  case (Cons x xs)
  show ?case
    by (cases "f x"; cases "traverse f xs") (auto simp: list_all2_Cons1 Cons.IH [symmetric])
qed

lemma traverse_length: "traverse f xs = Inr ys \<Longrightarrow> length ys = length xs"
  by (auto simp: traverse_Inr_iff dest: list_all2_lengthD)

lemma traverse_nth:
  "traverse f xs = Inr ys \<Longrightarrow> i < length xs \<Longrightarrow> f (xs ! i) = Inr (ys ! i)"
  by (auto simp: traverse_Inr_iff list_all2_conv_all_nth)

lemma traverse_total:
  assumes "\<And>x. x \<in> set xs \<Longrightarrow> \<exists>y. f x = Inr y"
  shows "\<exists>ys. traverse f xs = Inr ys"
  using assms
proof (induction xs)
  case Nil
  then show ?case by simp
next
  case (Cons x xs)
  have "\<exists>y. f x = Inr y" by (rule Cons.prems) simp
  moreover have "\<exists>ys. traverse f xs = Inr ys" by (rule Cons.IH) (simp add: Cons.prems)
  ultimately show ?case by auto
qed

lemma traverse_pure [simp]: "traverse (\<lambda>x. Inr (f x)) xs = Inr (map f xs)"
  by (induction xs) auto

lemma traverse_id:
  assumes "\<And>x. x \<in> set xs \<Longrightarrow> f x = Inr x"
  shows "traverse f xs = Inr xs"
  using assms by (induction xs) auto

lemma traverse_set:
  assumes "traverse f xs = Inr ys" and "y \<in> set ys"
  shows "\<exists>x \<in> set xs. f x = Inr y"
  using assms by (induction xs arbitrary: ys) (auto split: sum.splits)

lemma traverse_cong [fundef_cong]:
  assumes "xs = ys" and "\<And>x. x \<in> set ys \<Longrightarrow> f x = g x"
  shows "traverse f xs = traverse g ys"
proof -
  have "(\<And>x. x \<in> set ys \<Longrightarrow> f x = g x) \<Longrightarrow> traverse f ys = traverse g ys"
    by (induction ys) (simp_all split: sum.split)
  with assms show ?thesis by simp
qed

section \<open>Association lists: Go maps with string keys\<close>

text \<open>
  A Go map value is an association list with distinct keys.  \<open>alist_set\<close> overwrites the value
  of a key that is present and leaves the order of the entries alone.
\<close>

primrec alist_set :: "'k \<Rightarrow> 'v \<Rightarrow> ('k \<times> 'v) list \<Rightarrow> ('k \<times> 'v) list" where
  "alist_set k v [] = []"
| "alist_set k v (e # es) = (if fst e = k then (k, v) # es else e # alist_set k v es)"

lemma alist_set_keys [simp]: "map fst (alist_set k v m) = map fst m"
  by (induction m) auto

lemma map_of_alist_set:
  "map_of (alist_set k v m) j = (if j = k \<and> map_of m k \<noteq> None then Some v else map_of m j)"
  by (induction m) auto

lemma alist_set_idem: "map_of m k = Some v \<Longrightarrow> alist_set k v m = m"
  by (induction m) (auto split: if_splits)

section \<open>Interfaces\<close>

text \<open>A component that is a state machine: its invariant holds in every reachable state.\<close>

locale invariant_system =
  fixes init :: "'s \<Rightarrow> bool"
    and step :: "'s \<Rightarrow> 's \<Rightarrow> bool"
    and inv :: "'s \<Rightarrow> bool"
  assumes init_inv: "init s \<Longrightarrow> inv s"
    and step_inv: "inv s \<Longrightarrow> step s t \<Longrightarrow> inv t"
begin

lemma steps_inv: "step\<^sup>*\<^sup>* s t \<Longrightarrow> inv s \<Longrightarrow> inv t"
  by (induction rule: rtranclp_induct) (auto intro: step_inv)

lemma reachable_inv: "init s \<Longrightarrow> step\<^sup>*\<^sup>* s t \<Longrightarrow> inv t"
  by (blast intro: steps_inv init_inv)

end

text \<open>
  A state machine that implements an abstract one: the abstraction of every step is an abstract
  step, or no change at all.
\<close>

locale simulation = invariant_system init step inv
  for init :: "'s \<Rightarrow> bool" and step :: "'s \<Rightarrow> 's \<Rightarrow> bool" and inv :: "'s \<Rightarrow> bool" +
  fixes spec_init :: "'a \<Rightarrow> bool"
    and spec_step :: "'a \<Rightarrow> 'a \<Rightarrow> bool"
    and absf :: "'s \<Rightarrow> 'a"
  assumes init_sim: "init s \<Longrightarrow> spec_init (absf s)"
    and step_sim: "inv s \<Longrightarrow> step s t \<Longrightarrow> spec_step (absf s) (absf t) \<or> absf t = absf s"
begin

lemma steps_sim: "step\<^sup>*\<^sup>* s t \<Longrightarrow> inv s \<Longrightarrow> spec_step\<^sup>*\<^sup>* (absf s) (absf t)"
proof (induction rule: rtranclp_induct)
  case base
  then show ?case by simp
next
  case (step t u)
  from steps_inv [OF step.hyps(1) step.prems] step.hyps(2)
  have "spec_step (absf t) (absf u) \<or> absf u = absf t" by (rule step_sim)
  with step.IH [OF step.prems] show ?case by (auto intro: rtranclp.rtrancl_into_rtrancl)
qed

lemma reachable_sim: "init s \<Longrightarrow> step\<^sup>*\<^sup>* s t \<Longrightarrow> \<exists>a. spec_init a \<and> spec_step\<^sup>*\<^sup>* a (absf t)"
  by (blast intro: init_sim steps_sim init_inv)

end

text \<open>
  A family of redaction passes indexed by \<open>'p\<close>; \<open>pass p v\<close> is \<open>None\<close> where the pass
  does not return.  A pass leaves a value it does not change any more, and no other pass undoes
  that.
\<close>

locale redaction =
  fixes ok :: "'v \<Rightarrow> bool"
    and pass :: "'p \<Rightarrow> 'v \<Rightarrow> 'v option"
  assumes ok_pass: "ok v \<Longrightarrow> pass p v = Some w \<Longrightarrow> ok w"
    and pass_idem: "ok v \<Longrightarrow> pass p v = Some w \<Longrightarrow> pass p w = Some w"
    and pass_stable: "ok v \<Longrightarrow> pass p v = Some v \<Longrightarrow> pass q v = Some w \<Longrightarrow> pass p w = Some w"
begin

primrec passes :: "'p list \<Rightarrow> 'v \<Rightarrow> 'v option" where
  "passes [] v = Some v"
| "passes (p # ps) v = Option.bind (pass p v) (passes ps)"

lemma passes_ok: "ok v \<Longrightarrow> passes ps v = Some w \<Longrightarrow> ok w"
  by (induction ps arbitrary: v) (auto simp: bind_eq_Some_conv intro: ok_pass)

lemma passes_stable:
  "ok v \<Longrightarrow> pass p v = Some v \<Longrightarrow> passes ps v = Some w \<Longrightarrow> pass p w = Some w"
  by (induction ps arbitrary: v) (auto simp: bind_eq_Some_conv dest: pass_stable ok_pass)

lemma passes_establish:
  "ok v \<Longrightarrow> passes ps v = Some w \<Longrightarrow> p \<in> set ps \<Longrightarrow> pass p w = Some w"
proof (induction ps arbitrary: v)
  case Nil
  then show ?case by simp
next
  case (Cons q ps)
  then obtain u where u: "pass q v = Some u" and w: "passes ps u = Some w"
    by (auto simp: bind_eq_Some_conv)
  have "ok u" using Cons.prems(1) u by (rule ok_pass)
  show ?case
  proof (cases "p \<in> set ps")
    case True
    with \<open>ok u\<close> w show ?thesis by (rule Cons.IH)
  next
    case False
    with Cons.prems(3) have "p = q" by simp
    with Cons.prems(1) u have "pass p u = Some u" by (simp add: pass_idem)
    with \<open>ok u\<close> show ?thesis using w by (rule passes_stable)
  qed
qed

lemma passes_fixpoint: "(\<And>p. p \<in> set ps \<Longrightarrow> pass p v = Some v) \<Longrightarrow> passes ps v = Some v"
  by (induction ps) auto

lemma passes_idempotent: "ok v \<Longrightarrow> passes ps v = Some w \<Longrightarrow> passes ps w = Some w"
  by (blast intro: passes_fixpoint passes_establish)

end

end
