(* ===== verification/GoReflect.thy ===== *)
theory GoReflect
  imports Prelude
begin

text \<open>
  The part of Go's \<open>reflect\<close> package \<open>internal/utils.go\<close> works on: the types and values a
  \<open>reflect.Value\<close> can hold, zero values, and the two permissions a value carries besides its
  contents, whether it is addressable and whether it was reached through an unexported field.
  A value is a tree: a pointer, slice or map owns what it refers to.  Kinds the code never looks
  into (functions, channels, interfaces, floating point) are the constructor \<open>VOther\<close>, whose
  payload \<open>None\<close> is the kind's zero value.
\<close>

section \<open>Types and values\<close>

text \<open>What \<open>reflect.StructField\<close> says of a field; \<open>sf_json\<close> is \<open>Tag.Get("json")\<close>.\<close>

record struct_field =
  sf_name :: string
  sf_pkgpath :: string
  sf_json :: string
  sf_embedded :: bool

datatype gotype =
    TBool
  | TInt
  | TString
  | TOther string
  | TPtr gotype
  | TSlice gotype
  | TArray nat gotype
  | TMap bool gotype
  | TStruct "(struct_field \<times> gotype) list"

datatype goval =
    VBool bool
  | VInt int
  | VString string
  | VOther string "string option"
  | VPtr gotype "goval option"
  | VSlice gotype "goval list option"
  | VArray gotype "goval list"
  | VMap bool gotype "(string \<times> goval) list option"
  | VStruct "(struct_field \<times> goval) list"

text \<open>
  In \<open>TMap s t\<close> and \<open>VMap s t m\<close> the flag \<open>s\<close> says that the key type is \<open>string\<close>; keys of
  another type are written as strings.
\<close>

primrec type_of :: "goval \<Rightarrow> gotype" where
  "type_of (VBool b) = TBool"
| "type_of (VInt i) = TInt"
| "type_of (VString s) = TString"
| "type_of (VOther k x) = TOther k"
| "type_of (VPtr t p) = TPtr t"
| "type_of (VSlice t xs) = TSlice t"
| "type_of (VArray t xs) = TArray (length xs) t"
| "type_of (VMap s t m) = TMap s t"
| "type_of (VStruct fs) = TStruct (map (map_prod id type_of) fs)"

text \<open>\<open>reflect.Zero\<close>.\<close>

primrec zero_of :: "gotype \<Rightarrow> goval" where
  "zero_of TBool = VBool False"
| "zero_of TInt = VInt 0"
| "zero_of TString = VString []"
| "zero_of (TOther k) = VOther k None"
| "zero_of (TPtr t) = VPtr t None"
| "zero_of (TSlice t) = VSlice t None"
| "zero_of (TArray n t) = VArray t (replicate n (zero_of t))"
| "zero_of (TMap s t) = VMap s t None"
| "zero_of (TStruct fs) = VStruct (map (map_prod id zero_of) fs)"

text \<open>\<open>reflect.Kind.String\<close>, for the kinds the code reports in its last error.\<close>

primrec kind_name :: "goval \<Rightarrow> string" where
  "kind_name (VBool b) = ''bool''"
| "kind_name (VInt i) = ''int''"
| "kind_name (VString s) = ''string''"
| "kind_name (VOther k x) = k"
| "kind_name (VPtr t p) = ''ptr''"
| "kind_name (VSlice t xs) = ''slice''"
| "kind_name (VArray t xs) = ''array''"
| "kind_name (VMap s t m) = ''map''"
| "kind_name (VStruct fs) = ''struct''"

text \<open>A value whose parts have the types it declares, with distinct keys in its maps.\<close>

fun wf_val :: "goval \<Rightarrow> bool" where
  "wf_val (VPtr t None) = True"
| "wf_val (VPtr t (Some w)) = (wf_val w \<and> type_of w = t)"
| "wf_val (VSlice t None) = True"
| "wf_val (VSlice t (Some xs)) = (\<forall>w \<in> set xs. wf_val w \<and> type_of w = t)"
| "wf_val (VArray t xs) = (\<forall>w \<in> set xs. wf_val w \<and> type_of w = t)"
| "wf_val (VMap s t None) = True"
| "wf_val (VMap s t (Some es)) =
     (distinct (map fst es) \<and> (\<forall>e \<in> set es. wf_val (snd e) \<and> type_of (snd e) = t))"
| "wf_val (VStruct fs) = (\<forall>f \<in> set fs. wf_val (snd f))"
| "wf_val v = True"

section \<open>Permissions\<close>

text \<open>
  How a value was reached: \<open>RW\<close> through exported names only, \<open>EmbedRO\<close> through an embedded
  unexported field, \<open>StickyRO\<close> through an unexported field that is not embedded.  \<open>Field\<close> drops
  \<open>EmbedRO\<close> and keeps \<open>StickyRO\<close>; \<open>MapIndex\<close> and \<open>Index\<close> turn either into \<open>StickyRO\<close>.
\<close>

datatype perm = RW | EmbedRO | StickyRO

definition exported :: "struct_field \<Rightarrow> bool" where
  "exported f \<longleftrightarrow> sf_pkgpath f = []"

definition field_perm :: "perm \<Rightarrow> struct_field \<Rightarrow> perm" where
  "field_perm r f =
     (if r = StickyRO then StickyRO
      else if exported f then RW
      else if sf_embedded f then EmbedRO
      else StickyRO)"

definition ro_perm :: "perm \<Rightarrow> perm" where
  "ro_perm r = (if r = RW then RW else StickyRO)"

text \<open>\<open>v.Set(reflect.Zero(v.Type()))\<close>: both permissions are required.\<close>

definition set_zero :: "bool \<Rightarrow> perm \<Rightarrow> goval \<Rightarrow> goval go" where
  "set_zero addr r v =
     (if r \<noteq> RW then Inl SetUnexported
      else if \<not> addr then Inl SetUnaddressable
      else Inr (zero_of (type_of v)))"

text \<open>\<open>v.SetMapIndex(key, reflect.Zero(elem.Type()))\<close>: the map must not be read-only.\<close>

definition set_zero_entry :: "perm \<Rightarrow> goval \<Rightarrow> goval go" where
  "set_zero_entry r w = (if r \<noteq> RW then Inl SetUnexported else Inr (zero_of (type_of w)))"

section \<open>Laws\<close>

lemma type_of_zero_of [simp]: "type_of (zero_of t) = t"
proof (induction t)
  case (TStruct fs)
  then show ?case by (auto intro!: map_idI simp: snds.simps)
qed auto

lemma wf_zero_of [simp]: "wf_val (zero_of t)"
proof (induction t)
  case (TStruct fs)
  then show ?case by (force simp: snds.simps)
qed auto

lemma set_zero_Inr [simp]:
  "set_zero addr r v = Inr w \<longleftrightarrow> r = RW \<and> addr \<and> w = zero_of (type_of v)"
  by (auto simp: set_zero_def)

lemma set_zero_entry_Inr [simp]:
  "set_zero_entry r v = Inr w \<longleftrightarrow> r = RW \<and> w = zero_of (type_of v)"
  by (auto simp: set_zero_entry_def)

lemma field_perm_RW: "field_perm RW f = RW \<longleftrightarrow> exported f"
  by (simp add: field_perm_def)

end
