(* ===== verification/GoStrings.thy ===== *)
theory GoStrings
  imports Prelude
begin

text \<open>
  The part of Go's \<open>strings\<close>, \<open>strconv\<close> and \<open>fmt\<close> packages the program calls.  A Go
  string is a sequence of bytes, here the 8-bit characters of \<open>string\<close>.  \<open>TrimSpace\<close> removes
  Unicode white space, so its multi-byte UTF-8 encodings are listed as well as the ASCII
  characters.  \<open>Atoi\<close> reads a 64-bit \<open>int\<close> and is \<open>None\<close> where Go returns an error.
\<close>

section \<open>Splitting\<close>

text \<open>\<open>strings.Split(s, c)\<close> for a separator of one byte: the empty string gives one empty item.\<close>

fun Split :: "char \<Rightarrow> string \<Rightarrow> string list" where
  "Split c [] = [[]]"
| "Split c (x # xs) =
     (if x = c then [] # Split c xs
      else (case Split c xs of [] \<Rightarrow> [[x]] | w # ws \<Rightarrow> (x # w) # ws))"

text \<open>\<open>strings.Join\<close> with a separator of one byte.\<close>

fun Join :: "char \<Rightarrow> string list \<Rightarrow> string" where
  "Join c [] = []"
| "Join c [w] = w"
| "Join c (w # v # ws) = w @ c # Join c (v # ws)"

text \<open>\<open>strings.IndexByte\<close>: \<open>None\<close> stands for the result -1.\<close>

fun IndexByte :: "string \<Rightarrow> char \<Rightarrow> nat option" where
  "IndexByte [] c = None"
| "IndexByte (x # xs) c = (if x = c then Some 0 else map_option Suc (IndexByte xs c))"

definition HasPrefix :: "string \<Rightarrow> string \<Rightarrow> bool" where
  "HasPrefix s p \<longleftrightarrow> take (length p) s = p"

definition HasSuffix :: "string \<Rightarrow> string \<Rightarrow> bool" where
  "HasSuffix s p \<longleftrightarrow> length p \<le> length s \<and> drop (length s - length p) s = p"

definition TrimPrefix :: "string \<Rightarrow> string \<Rightarrow> string" where
  "TrimPrefix s p = (if HasPrefix s p then drop (length p) s else s)"

section \<open>Trimming\<close>

text \<open>The UTF-8 encodings of the characters for which \<open>unicode.IsSpace\<close> holds.\<close>

definition space_codes :: "nat list list" where
  "space_codes =
     [[9], [10], [11], [12], [13], [32], [0xC2, 0x85], [0xC2, 0xA0], [0xE1, 0x9A, 0x80],
      [0xE2, 0x80, 0x80], [0xE2, 0x80, 0x81], [0xE2, 0x80, 0x82], [0xE2, 0x80, 0x83],
      [0xE2, 0x80, 0x84], [0xE2, 0x80, 0x85], [0xE2, 0x80, 0x86], [0xE2, 0x80, 0x87],
      [0xE2, 0x80, 0x88], [0xE2, 0x80, 0x89], [0xE2, 0x80, 0x8A], [0xE2, 0x80, 0xA8],
      [0xE2, 0x80, 0xA9], [0xE2, 0x80, 0xAF], [0xE2, 0x81, 0x9F], [0xE3, 0x80, 0x80]]"

text \<open>The first of the given codes that starts the string, if any: how many bytes it has.\<close>

fun starts_with :: "nat list \<Rightarrow> string \<Rightarrow> bool" where
  "starts_with [] s = True"
| "starts_with (n # ns) [] = False"
| "starts_with (n # ns) (c # cs) = (of_char c = n \<and> starts_with ns cs)"

definition space_at :: "nat list list \<Rightarrow> string \<Rightarrow> nat option" where
  "space_at codes s = map_option length (find (\<lambda>ns. starts_with ns s) codes)"

function strip :: "nat list list \<Rightarrow> string \<Rightarrow> string" where
  "strip codes s =
     (case space_at codes s of
        None \<Rightarrow> s
      | Some n \<Rightarrow> if 0 < n \<and> s \<noteq> [] then strip codes (drop n s) else s)"
  by pat_completeness auto
termination
  by (relation "measure (\<lambda>(codes, s). length s)") auto

declare strip.simps [simp del]

definition TrimSpace :: "string \<Rightarrow> string" where
  "TrimSpace s = rev (strip (map rev space_codes) (rev (strip space_codes s)))"

section \<open>Numbers\<close>

definition digit_char :: "nat \<Rightarrow> char" where
  "digit_char d = char_of (48 + d)"

definition char_digit :: "char \<Rightarrow> nat option" where
  "char_digit c =
     (let n = of_char c in if 48 \<le> n \<and> n \<le> 57 then Some (n - 48) else None)"

text \<open>Reading decimal digits from left to right; every byte must be a digit.\<close>

fun read_digits :: "nat \<Rightarrow> string \<Rightarrow> nat option" where
  "read_digits acc [] = Some acc"
| "read_digits acc (c # cs) =
     (case char_digit c of None \<Rightarrow> None | Some d \<Rightarrow> read_digits (10 * acc + d) cs)"

definition int_min :: int where
  "int_min = - (2 ^ 63)"

definition int_max :: int where
  "int_max = 2 ^ 63 - 1"

definition read_nat :: "string \<Rightarrow> nat option" where
  "read_nat s = (if s = [] then None else read_digits 0 s)"

definition Atoi :: "string \<Rightarrow> int option" where
  "Atoi s =
     (let (neg, body) =
        (case s of
           [] \<Rightarrow> (False, [])
         | c # cs \<Rightarrow> if c = CHR ''-'' then (True, cs) else if c = CHR ''+'' then (False, cs)
             else (False, s))
      in case read_nat body of
           None \<Rightarrow> None
         | Some n \<Rightarrow>
             (let v = (if neg then - int n else int n)
              in if int_min \<le> v \<and> v \<le> int_max then Some v else None))"

text \<open>The decimal digits of a number, as the verb \<open>%d\<close> of \<open>fmt.Sprintf\<close> prints an \<open>int\<close>.\<close>

fun show_nat :: "nat \<Rightarrow> string" where
  "show_nat n = (if n < 10 then [digit_char n] else show_nat (n div 10) @ [digit_char (n mod 10)])"

declare show_nat.simps [simp del]

definition Itoa :: "int \<Rightarrow> string" where
  "Itoa i = (if i < 0 then CHR ''-'' # show_nat (nat (- i)) else show_nat (nat i))"

section \<open>Laws\<close>

lemma Split_not_Nil [simp]: "Split c s \<noteq> []"
  by (induction s) (auto split: list.splits)

lemma Split_absent: "c \<notin> set s \<Longrightarrow> Split c s = [s]"
  by (induction s) auto

lemma Split_append: "c \<notin> set w \<Longrightarrow> Split c (w @ c # s) = w # Split c s"
  by (induction w) auto

lemma Split_items_absent: "w \<in> set (Split c s) \<Longrightarrow> c \<notin> set w"
  by (induction s arbitrary: w) (auto split: list.splits if_splits)

lemma Join_Split: "Join c (Split c s) = s"
proof (induction s)
  case Nil
  then show ?case by simp
next
  case (Cons x s)
  then show ?case by (cases "Split c s"; cases "tl (Split c s)") auto
qed

lemma Split_Join:
  "ws \<noteq> [] \<Longrightarrow> (\<And>w. w \<in> set ws \<Longrightarrow> c \<notin> set w) \<Longrightarrow> Split c (Join c ws) = ws"
  by (induction c ws rule: Join.induct) (auto simp: Split_append Split_absent)

lemma IndexByte_Some:
  "IndexByte s c = Some i \<Longrightarrow> i < length s \<and> s ! i = c \<and> c \<notin> set (take i s)"
  by (induction s arbitrary: i) (auto split: if_splits)

lemma IndexByte_None: "IndexByte s c = None \<longleftrightarrow> c \<notin> set s"
  by (induction s) auto

lemma IndexByte_append: "c \<notin> set k \<Longrightarrow> IndexByte (k @ c # s) c = Some (length k)"
  by (induction k) auto

lemma HasPrefix_append [simp]: "HasPrefix (p @ s) p"
  by (simp add: HasPrefix_def)

lemma HasPrefix_iff: "HasPrefix s p \<longleftrightarrow> (\<exists>t. s = p @ t)"
  unfolding HasPrefix_def by (metis append_eq_conv_conj append_take_drop_id)

lemma HasSuffix_iff: "HasSuffix s p \<longleftrightarrow> (\<exists>t. s = t @ p)"
  unfolding HasSuffix_def
  by (metis append_eq_conv_conj append_take_drop_id diff_le_self le_add_diff_inverse2 length_append
      length_drop length_take add.commute diff_diff_cancel le_add2 min.absorb2)

lemma TrimPrefix_append [simp]: "TrimPrefix (p @ s) p = s"
  by (simp add: TrimPrefix_def)

text \<open>What \<open>strip\<close> leaves: a suffix of its input that no code starts any more.\<close>

lemma strip_None: "space_at codes s = None \<Longrightarrow> strip codes s = s"
  by (subst strip.simps) simp

lemma strip_Nil [simp]: "strip codes [] = []"
  by (subst strip.simps) (simp split: option.split)

lemma strip_suffix: "\<exists>p. s = p @ strip codes s"
proof (induction codes s rule: strip.induct)
  case (1 codes s)
  show ?case
  proof (cases "space_at codes s")
    case None
    then show ?thesis by (simp add: strip_None)
  next
    case (Some n)
    show ?thesis
    proof (cases "0 < n \<and> s \<noteq> []")
      case True
      with "1.IH" [OF Some] obtain p where "drop n s = p @ strip codes (drop n s)" by blast
      moreover have "strip codes s = strip codes (drop n s)"
        using Some True by (subst strip.simps) simp
      ultimately show ?thesis by (metis append_assoc append_take_drop_id)
    next
      case False
      with Some show ?thesis by (subst strip.simps) auto
    qed
  qed
qed

lemma strip_fixed: "[] \<notin> set codes \<Longrightarrow> strip codes s = [] \<or> space_at codes (strip codes s) = None"
proof (induction codes s rule: strip.induct)
  case (1 codes s)
  show ?case
  proof (cases "space_at codes s")
    case None
    then show ?thesis by (simp add: strip_None)
  next
    case (Some n)
    from Some "1.prems" have "0 < n" by (auto simp: space_at_def find_Some_iff dest: nth_mem)
    show ?thesis
    proof (cases "s = []")
      case True
      then show ?thesis by simp
    next
      case False
      with Some \<open>0 < n\<close> have "strip codes s = strip codes (drop n s)"
        by (subst strip.simps) simp
      with "1.IH" [OF Some] False \<open>0 < n\<close> "1.prems" show ?thesis by simp
    qed
  qed
qed

lemma strip_idem: "[] \<notin> set codes \<Longrightarrow> strip codes (strip codes s) = strip codes s"
  using strip_fixed [of codes s] by (auto simp: strip_None)

lemma starts_with_append: "starts_with ns u \<Longrightarrow> starts_with ns (u @ v)"
  by (induction ns u rule: starts_with.induct) auto

lemma space_at_append: "space_at codes (u @ v) = None \<Longrightarrow> space_at codes u = None"
  by (auto simp: space_at_def find_None_iff starts_with_append)

lemma space_codes_nonempty: "[] \<notin> set space_codes" "[] \<notin> set (map rev space_codes)"
  by (simp_all add: space_codes_def)

lemma TrimSpace_Nil [simp]: "TrimSpace [] = []"
  by (simp add: TrimSpace_def)

lemma TrimSpace_idem: "TrimSpace (TrimSpace s) = TrimSpace s"
proof -
  let ?r = "map rev space_codes"
  define t where "t = strip space_codes s"
  define u where "u = rev (strip ?r (rev t))"
  obtain p where "rev t = p @ strip ?r (rev t)" using strip_suffix by blast
  then have t: "t = u @ rev p" unfolding u_def by (metis rev_append rev_rev_ident)
  have "strip space_codes u = u"
  proof (cases "t = []")
    case True
    then show ?thesis by (simp add: u_def)
  next
    case False
    then have "space_at space_codes t = None"
      using strip_fixed [OF space_codes_nonempty(1), of s] by (simp add: t_def)
    then show ?thesis using t by (metis space_at_append strip_None)
  qed
  moreover have "strip ?r (rev u) = rev u"
    using strip_idem [OF space_codes_nonempty(2)] by (simp add: u_def)
  ultimately show ?thesis by (simp add: TrimSpace_def t_def u_def)
qed

text \<open>Printing a number and reading it back.\<close>

lemma char_digit_digit_char [simp]: "d < 10 \<Longrightarrow> char_digit (digit_char d) = Some d"
  by (simp add: char_digit_def digit_char_def Let_def)

lemma read_digits_append:
  "read_digits acc (u @ v) = (case read_digits acc u of None \<Rightarrow> None | Some a \<Rightarrow> read_digits a v)"
  by (induction u arbitrary: acc) (auto split: option.splits)

lemma read_digits_show_nat: "read_digits 0 (show_nat n) = Some n"
proof (induction n rule: show_nat.induct)
  case (1 n)
  show ?case
  proof (cases "n < 10")
    case True
    then show ?thesis by (subst show_nat.simps) simp
  next
    case False
    with "1.IH" show ?thesis by (subst show_nat.simps) (simp add: read_digits_append)
  qed
qed

lemma show_nat_not_Nil [simp]: "show_nat n \<noteq> []"
  by (subst show_nat.simps) simp

lemma digit_char_noteq [simp]:
  "d < 10 \<Longrightarrow> digit_char d \<noteq> CHR ''-''"
  "d < 10 \<Longrightarrow> digit_char d \<noteq> CHR ''+''"
  "d < 10 \<Longrightarrow> digit_char d \<noteq> CHR '':''"
  by (auto simp: digit_char_def dest!: arg_cong [where f = "of_char :: char \<Rightarrow> nat"])

lemma show_nat_chars: "c \<in> set (show_nat n) \<Longrightarrow> \<exists>d < 10. c = digit_char d"
proof (induction n rule: show_nat.induct)
  case (1 n)
  show ?case
  proof (cases "n < 10")
    case True
    with "1.prems" show ?thesis by (subst (asm) show_nat.simps) auto
  next
    case False
    with "1.prems" consider "c \<in> set (show_nat (n div 10))" | "c = digit_char (n mod 10)"
      by (subst (asm) show_nat.simps) auto
    then show ?thesis
      using "1.IH" [OF False] by cases (auto intro: exI [of _ "n mod 10"])
  qed
qed

lemma Atoi_Itoa:
  assumes "int_min \<le> i" and "i \<le> int_max"
  shows "Atoi (Itoa i) = Some i"
proof (cases "i < 0")
  case True
  with assms show ?thesis
    by (simp add: Atoi_def Itoa_def read_nat_def read_digits_show_nat)
next
  case False
  obtain c cs where s: "show_nat (nat i) = c # cs" by (cases "show_nat (nat i)") auto
  then have "\<exists>d < 10. c = digit_char d" using show_nat_chars [of c "nat i"] by simp
  then have "c \<noteq> CHR ''-''" "c \<noteq> CHR ''+''" by auto
  moreover have "read_digits 0 (c # cs) = Some (nat i)"
    using read_digits_show_nat [of "nat i"] s by simp
  ultimately show ?thesis
    using False assms by (simp add: Atoi_def Itoa_def s read_nat_def del: read_digits.simps)
qed

lemma show_nat_inj: "show_nat m = show_nat n \<Longrightarrow> m = n"
  by (metis option.inject read_digits_show_nat)

lemma Itoa_inj: "Itoa i = Itoa j \<Longrightarrow> 0 < i \<Longrightarrow> 0 < j \<Longrightarrow> i = j"
  by (auto simp: Itoa_def dest: show_nat_inj)

lemma Itoa_no_colon: "CHR '':'' \<notin> set (Itoa i)"
  by (auto simp: Itoa_def dest!: show_nat_chars) (metis digit_char_noteq(3))+

lemma Atoi_bounds: "Atoi s = Some v \<Longrightarrow> int_min \<le> v \<and> v \<le> int_max"
  by (auto simp: Atoi_def Let_def split: prod.splits option.splits if_splits)

end
