(* ===== verification/ClearPath.thy ===== *)
theory ClearPath
  imports GoReflect GoStrings
begin

text \<open>
  \<open>internal/utils.go\<close>: \<open>ClearByPath\<close> zeroes what a dotted path addresses inside a value, by
  reflection.  \<open>splitPath\<close> is its path syntax, \<open>findStructFieldByJSONTag\<close> its field lookup and
  \<open>clearRecursive\<close> the descent, one definition per kind it distinguishes.  The model returns
  the changed value together with the Go error, or a panic.
\<close>

section \<open>Paths\<close>

text \<open>The loop of \<open>splitPath\<close>: finished parts, the buffer, the quote flag, the rest of the input.\<close>

fun splitPath_loop :: "string list \<Rightarrow> string \<Rightarrow> bool \<Rightarrow> string \<Rightarrow> string list" where
  "splitPath_loop parts buf inQuotes [] = (if buf \<noteq> [] then parts @ [buf] else parts)"
| "splitPath_loop parts buf inQuotes (c # cs) =
     (if c = CHR 0x27 then splitPath_loop parts buf (\<not> inQuotes) cs
      else if c = CHR ''.'' then
        (if \<not> inQuotes then splitPath_loop (parts @ [buf]) [] inQuotes cs
         else splitPath_loop parts (buf @ [c]) inQuotes cs)
      else splitPath_loop parts (buf @ [c]) inQuotes cs)"

definition splitPath :: "string \<Rightarrow> string list" where
  "splitPath path = splitPath_loop [] [] False path"

section \<open>Field lookup\<close>

text \<open>One turn of the loop of \<open>findStructFieldByJSONTag\<close>: does this field answer to the name?\<close>

definition field_matches :: "string \<Rightarrow> struct_field \<Rightarrow> bool" where
  "field_matches name sf \<longleftrightarrow>
     sf_pkgpath sf = [] \<and>
     ((sf_json sf \<noteq> [] \<and> hd (Split CHR '','' (sf_json sf)) = name) \<or> sf_name sf = name)"

text \<open>The index of the first such field, \<open>None\<close> for the invalid \<open>reflect.Value{}\<close>.\<close>

fun findStructFieldByJSONTag :: "(struct_field \<times> 'v) list \<Rightarrow> string \<Rightarrow> nat option" where
  "findStructFieldByJSONTag [] name = None"
| "findStructFieldByJSONTag ((sf, v) # fs) name =
     (if field_matches name sf then Some 0
      else map_option Suc (findStructFieldByJSONTag fs name))"

section \<open>The descent\<close>

datatype clear_error =
    FieldNotFound string
  | InvalidIndex string
  | CannotNavigate string string

type_synonym clear_result = "(goval \<times> clear_error option) go"

text \<open>
  What happens to one child: the last part of the path zeroes it, an earlier part continues with
  \<open>rec\<close>, which is \<open>clearRecursive\<close> on the rest of the path.
\<close>

definition clear_child ::
  "(bool \<Rightarrow> perm \<Rightarrow> goval \<Rightarrow> clear_result) \<Rightarrow> bool \<Rightarrow> bool \<Rightarrow> perm \<Rightarrow> goval \<Rightarrow> clear_result" where
  "clear_child rec is_last addr r w =
     (if is_last then go_map (\<lambda>z. (z, None)) (set_zero addr r w) else rec addr r w)"

definition clear_entry ::
  "(bool \<Rightarrow> perm \<Rightarrow> goval \<Rightarrow> clear_result) \<Rightarrow> bool \<Rightarrow> perm \<Rightarrow> goval \<Rightarrow> clear_result" where
  "clear_entry rec is_last r w =
     (if is_last then go_map (\<lambda>z. (z, None)) (set_zero_entry r w) else rec False (ro_perm r) w)"

text \<open>The struct case: \<open>*\<close> visits every field and drops the errors of the descent.\<close>

definition clear_struct ::
  "(bool \<Rightarrow> perm \<Rightarrow> goval \<Rightarrow> clear_result) \<Rightarrow> bool \<Rightarrow> string \<Rightarrow> bool \<Rightarrow> perm
     \<Rightarrow> (struct_field \<times> goval) list \<Rightarrow> clear_result" where
  "clear_struct rec is_last part addr r fs =
     (if part = ''*'' then
        go_map (\<lambda>fs'. (VStruct fs', None))
          (traverse (\<lambda>(f, w). go_map (\<lambda>we. (f, fst we)) (clear_child rec is_last addr (field_perm r f) w)) fs)
      else
        (case findStructFieldByJSONTag fs part of
           None \<Rightarrow> Inr (VStruct fs, Some (FieldNotFound part))
         | Some i \<Rightarrow>
             go_map (\<lambda>we. (VStruct (fs[i := (fst (fs ! i), fst we)]), snd we))
               (clear_child rec is_last addr (field_perm r (fst (fs ! i))) (snd (fs ! i)))))"

text \<open>The map case: an entry is a copy that is not addressable; an absent key is no error.\<close>

definition clear_map ::
  "(bool \<Rightarrow> perm \<Rightarrow> goval \<Rightarrow> clear_result) \<Rightarrow> bool \<Rightarrow> string \<Rightarrow> perm \<Rightarrow> bool \<Rightarrow> gotype
     \<Rightarrow> (string \<times> goval) list option \<Rightarrow> clear_result" where
  "clear_map rec is_last part r strkey t m =
     (if part = ''*'' then
        (case m of
           None \<Rightarrow> Inr (VMap strkey t None, None)
         | Some es \<Rightarrow>
             go_map (\<lambda>es'. (VMap strkey t (Some es'), None))
               (traverse (\<lambda>(k, w). go_map (\<lambda>we. (k, fst we)) (clear_entry rec is_last r w)) es))
      else if \<not> strkey then Inl MapKeyType
      else
        (case m of
           None \<Rightarrow> Inr (VMap strkey t None, None)
         | Some es \<Rightarrow>
             (case map_of es part of
                None \<Rightarrow> Inr (VMap strkey t (Some es), None)
              | Some w \<Rightarrow>
                  go_map (\<lambda>we. (VMap strkey t (Some (alist_set part (fst we) es)), snd we))
                    (clear_entry rec is_last r w))))"

text \<open>The slice and array case, on the elements; \<open>addr\<close> is the addressability of an element.\<close>

definition clear_elems ::
  "(bool \<Rightarrow> perm \<Rightarrow> goval \<Rightarrow> clear_result) \<Rightarrow> bool \<Rightarrow> string \<Rightarrow> bool \<Rightarrow> perm \<Rightarrow> goval list
     \<Rightarrow> (goval list \<times> clear_error option) go" where
  "clear_elems rec is_last part addr r xs =
     (if part = ''*'' then
        go_map (\<lambda>xs'. (xs', None))
          (traverse (\<lambda>w. go_map fst (clear_child rec is_last addr (ro_perm r) w)) xs)
      else
        (case Atoi part of
           None \<Rightarrow> Inr (xs, Some (InvalidIndex part))
         | Some idx \<Rightarrow>
             if idx < 0 \<or> int (length xs) \<le> idx then Inr (xs, Some (InvalidIndex part))
             else
               go_map (\<lambda>we. (xs[nat idx := fst we], snd we))
                 (clear_child rec is_last addr (ro_perm r) (xs ! nat idx))))"

text \<open>The \<open>switch v.Kind()\<close> of \<open>clearRecursive\<close>.\<close>

fun clear_kind ::
  "(bool \<Rightarrow> perm \<Rightarrow> goval \<Rightarrow> clear_result) \<Rightarrow> bool \<Rightarrow> string \<Rightarrow> bool \<Rightarrow> perm \<Rightarrow> goval
     \<Rightarrow> clear_result" where
  "clear_kind rec is_last part addr r (VStruct fs) = clear_struct rec is_last part addr r fs"
| "clear_kind rec is_last part addr r (VMap s t m) = clear_map rec is_last part r s t m"
| "clear_kind rec is_last part addr r (VSlice t None) =
     go_map (\<lambda>xe. (VSlice t None, snd xe)) (clear_elems rec is_last part True r [])"
| "clear_kind rec is_last part addr r (VSlice t (Some xs)) =
     go_map (\<lambda>xe. (VSlice t (Some (fst xe)), snd xe)) (clear_elems rec is_last part True r xs)"
| "clear_kind rec is_last part addr r (VArray t xs) =
     go_map (\<lambda>xe. (VArray t (fst xe), snd xe)) (clear_elems rec is_last part addr r xs)"
| "clear_kind rec is_last part addr r v = Inr (v, Some (CannotNavigate (kind_name v) part))"

text \<open>One pointer is followed before the switch; a nil pointer ends the descent without error.\<close>

fun clear_deref ::
  "(bool \<Rightarrow> perm \<Rightarrow> goval \<Rightarrow> clear_result) \<Rightarrow> bool \<Rightarrow> string \<Rightarrow> bool \<Rightarrow> perm \<Rightarrow> goval
     \<Rightarrow> clear_result" where
  "clear_deref rec is_last part addr r (VPtr t None) = Inr (VPtr t None, None)"
| "clear_deref rec is_last part addr r (VPtr t (Some w)) =
     go_map (\<lambda>we. (VPtr t (Some (fst we)), snd we)) (clear_kind rec is_last part True r w)"
| "clear_deref rec is_last part addr r v = clear_kind rec is_last part addr r v"

primrec clearRecursive :: "string list \<Rightarrow> bool \<Rightarrow> perm \<Rightarrow> goval \<Rightarrow> clear_result" where
  "clearRecursive [] = (\<lambda>addr r v. Inr (v, None))"
| "clearRecursive (part # rest) = clear_deref (clearRecursive rest) (rest = []) part"

definition ClearByPath :: "goval \<Rightarrow> string \<Rightarrow> clear_result" where
  "ClearByPath obj path = clearRecursive (splitPath path) False RW obj"

end
