(* ===== verification/ClearScheme.thy ===== *)
theory ClearScheme
  imports ClearPath
begin

text \<open>
  How the descent of \<open>ClearPath\<close> works, stated once for all containers: the relation \<open>lowers\<close>
  (some parts replaced by their zero values), and the lemma \<open>clear_kind_run\<close>, by which every case
  of \<open>clear_kind\<close> runs the addressed children of a container and keeps the others.
\<close>

section \<open>Zeroing as a relation\<close>

text \<open>
  \<open>lowers v w\<close>: \<open>w\<close> is \<open>v\<close> with some of its parts replaced by their zero values, the abstract
  specification of everything \<open>ClearByPath\<close> may do.
\<close>

inductive lowers :: "goval \<Rightarrow> goval \<Rightarrow> bool" where
  lowers_refl: "lowers v v"
| lowers_zero: "lowers v (zero_of (type_of v))"
| lowers_ptr: "lowers v w \<Longrightarrow> lowers (VPtr t (Some v)) (VPtr t (Some w))"
| lowers_slice:
    "length ys = length xs \<Longrightarrow> (\<And>i. i < length xs \<Longrightarrow> lowers (xs ! i) (ys ! i)) \<Longrightarrow>
     lowers (VSlice t (Some xs)) (VSlice t (Some ys))"
| lowers_array:
    "length ys = length xs \<Longrightarrow> (\<And>i. i < length xs \<Longrightarrow> lowers (xs ! i) (ys ! i)) \<Longrightarrow>
     lowers (VArray t xs) (VArray t ys)"
| lowers_map:
    "map fst fs = map fst es \<Longrightarrow>
     (\<And>i. i < length es \<Longrightarrow> lowers (snd (es ! i)) (snd (fs ! i))) \<Longrightarrow>
     lowers (VMap s t (Some es)) (VMap s t (Some fs))"
| lowers_struct:
    "map fst gs = map fst fs \<Longrightarrow>
     (\<And>i. i < length fs \<Longrightarrow> lowers (snd (fs ! i)) (snd (gs ! i))) \<Longrightarrow>
     lowers (VStruct fs) (VStruct gs)"

lemma map_fst_nth: "map fst xs = map fst ys \<Longrightarrow> i < length ys \<Longrightarrow> fst (xs ! i) = fst (ys ! i)"
  by (metis length_map nth_map)

lemma map_type_struct:
  assumes "map fst gs = map fst fs"
    and "\<And>i. i < length fs \<Longrightarrow> type_of (snd (gs ! i)) = type_of (snd (fs ! i))"
  shows "map (map_prod id type_of) gs = map (map_prod id type_of) fs"
proof (rule nth_equalityI)
  show len: "length (map (map_prod id type_of) gs) = length (map (map_prod id type_of) fs)"
    using map_eq_imp_length_eq [OF assms(1)] by simp
  fix i assume "i < length (map (map_prod id type_of) gs)"
  with len have i: "i < length fs" and "i < length gs" by simp_all
  then show "map (map_prod id type_of) gs ! i = map (map_prod id type_of) fs ! i"
    using map_fst_nth [OF assms(1) i] assms(2) [OF i] by (simp add: map_prod_def split_beta)
qed

lemma lowers_type: "lowers v w \<Longrightarrow> type_of w = type_of v"
  by (induction rule: lowers.induct) (auto intro: map_type_struct)

lemma lowers_wf: "lowers v w \<Longrightarrow> wf_val v \<Longrightarrow> wf_val w"
proof (induction rule: lowers.induct)
  case (lowers_map fs es s t)
  then have "length fs = length es" by (metis length_map)
  with lowers_map show ?case by (auto simp: all_set_conv_all_nth lowers_type)
next
  case (lowers_struct gs fs)
  then have "length gs = length fs" by (metis length_map)
  with lowers_struct show ?case by (auto simp: all_set_conv_all_nth)
qed (auto simp: all_set_conv_all_nth lowers_type)

lemma findStructFieldByJSONTag_Some:
  "findStructFieldByJSONTag fs name = Some i \<Longrightarrow>
     i < length fs \<and> field_matches name (fst (fs ! i)) \<and>
     (\<forall>j < i. \<not> field_matches name (fst (fs ! j)))"
  by (induction fs name arbitrary: i rule: findStructFieldByJSONTag.induct)
    (auto split: if_splits simp: less_Suc_eq_0_disj nth_Cons split: nat.splits)

lemma findStructFieldByJSONTag_None:
  "findStructFieldByJSONTag fs name = None \<longleftrightarrow> (\<forall>f \<in> set fs. \<not> field_matches name (fst f))"
  by (induction fs name rule: findStructFieldByJSONTag.induct) auto

lemma findStructFieldByJSONTag_cong:
  "map fst fs = map fst gs \<Longrightarrow> findStructFieldByJSONTag fs name = findStructFieldByJSONTag gs name"
proof (induction fs arbitrary: gs)
  case Nil
  then show ?case by simp
next
  case (Cons f fs)
  then obtain g gs' where "gs = g # gs'" by (cases gs) auto
  with Cons show ?case by (cases f; cases g) auto
qed

section \<open>A uniform view of the containers\<close>

text \<open>
  The cases of the descent differ in how children are found and with which permissions they are
  visited, and in nothing else.  \<open>kids\<close> lists the children of a container and \<open>with_kids\<close> replaces
  them; \<open>pick\<close> says which of them a part of the path addresses; \<open>kid_run\<close> is what happens to one
  of them, with the error dropped and a panic as \<open>None\<close>.  \<open>clear_kind_run\<close> below shows that the
  model is exactly this scheme, and the proofs about the descent use only the scheme.
\<close>

fun kids :: "goval \<Rightarrow> goval list" where
  "kids (VStruct fs) = map snd fs"
| "kids (VMap s t (Some es)) = map snd es"
| "kids (VSlice t (Some xs)) = xs"
| "kids (VArray t xs) = xs"
| "kids v = []"

fun with_kids :: "goval \<Rightarrow> goval list \<Rightarrow> goval" where
  "with_kids (VStruct fs) ws = VStruct (zip (map fst fs) ws)"
| "with_kids (VMap s t (Some es)) ws = VMap s t (Some (zip (map fst es) ws))"
| "with_kids (VSlice t (Some xs)) ws = VSlice t (Some ws)"
| "with_kids (VArray t xs) ws = VArray t ws"
| "with_kids v ws = v"

fun find_key :: "'k \<Rightarrow> ('k \<times> 'v) list \<Rightarrow> nat option" where
  "find_key k [] = None"
| "find_key k (e # es) = (if fst e = k then Some 0 else map_option Suc (find_key k es))"

definition pick_index :: "string \<Rightarrow> nat \<Rightarrow> nat option" where
  "pick_index part n =
     (case Atoi part of
        None \<Rightarrow> None
      | Some idx \<Rightarrow> if idx < 0 \<or> int n \<le> idx then None else Some (nat idx))"

fun pick_one :: "string \<Rightarrow> goval \<Rightarrow> nat option" where
  "pick_one part (VStruct fs) = findStructFieldByJSONTag fs part"
| "pick_one part (VMap s t (Some es)) = find_key part es"
| "pick_one part (VSlice t (Some xs)) = pick_index part (length xs)"
| "pick_one part (VArray t xs) = pick_index part (length xs)"
| "pick_one part v = None"

definition pick :: "string \<Rightarrow> goval \<Rightarrow> nat \<Rightarrow> bool" where
  "pick part v i \<longleftrightarrow> part = ''*'' \<or> pick_one part v = Some i"

fun bad_key :: "string \<Rightarrow> goval \<Rightarrow> bool" where
  "bad_key part (VMap s t m) = (part \<noteq> ''*'' \<and> \<not> s)"
| "bad_key part v = False"

text \<open>May the child be set, and with which permissions does the descent continue into it?\<close>

fun kid_perm :: "bool \<Rightarrow> perm \<Rightarrow> goval \<Rightarrow> nat \<Rightarrow> bool \<times> bool \<times> perm" where
  "kid_perm a r (VStruct fs) i =
     (let q = field_perm r (fst (fs ! i)) in (q = RW \<and> a, a, q))"
| "kid_perm a r (VMap s t m) i = (r = RW, False, ro_perm r)"
| "kid_perm a r (VArray t xs) i = (r = RW \<and> a, a, ro_perm r)"
| "kid_perm a r v i = (r = RW, True, ro_perm r)"

definition erase :: "clear_result \<Rightarrow> goval option" where
  "erase x = (case x of Inl p \<Rightarrow> None | Inr we \<Rightarrow> Some (fst we))"

definition kid_run ::
  "(bool \<Rightarrow> perm \<Rightarrow> goval \<Rightarrow> clear_result) \<Rightarrow> bool \<Rightarrow> bool \<times> bool \<times> perm \<Rightarrow> goval \<Rightarrow> goval option" where
  "kid_run rec is_last p w =
     (case p of (settable, a, r) \<Rightarrow>
        if is_last then (if settable then Some (zero_of (type_of w)) else None)
        else erase (rec a r w))"

definition kid_step ::
  "(bool \<Rightarrow> perm \<Rightarrow> goval \<Rightarrow> clear_result) \<Rightarrow> bool \<Rightarrow> string \<Rightarrow> bool \<Rightarrow> perm \<Rightarrow> goval \<Rightarrow> nat \<Rightarrow> goval
     \<Rightarrow> goval option" where
  "kid_step rec is_last part a r v i w =
     (if pick part v i then kid_run rec is_last (kid_perm a r v i) w else Some w)"

lemma erase_simps [simp]:
  "erase (Inl p) = None"
  "erase (Inr we) = Some (fst we)"
  by (simp_all add: erase_def)

lemma erase_go_map [simp]: "erase (go_map f m) = (case m of Inl p \<Rightarrow> None | Inr x \<Rightarrow> Some (fst (f x)))"
  by (cases m) simp_all

lemma ro_perm_RW [simp]: "ro_perm r = RW \<longleftrightarrow> r = RW"
  by (simp add: ro_perm_def)

lemma erase_clear_child:
  "erase (clear_child rec is_last a q w) = kid_run rec is_last (q = RW \<and> a, a, q) w"
  by (auto simp: clear_child_def kid_run_def set_zero_def)

lemma erase_clear_entry:
  "erase (clear_entry rec is_last r w) = kid_run rec is_last (r = RW, False, ro_perm r) w"
  by (auto simp: clear_entry_def kid_run_def set_zero_entry_def)

lemma find_key_map_of:
  "find_key k es = None \<Longrightarrow> map_of es k = None"
  "find_key k es = Some i \<Longrightarrow>
     i < length es \<and> map_of es k = Some (snd (es ! i)) \<and>
     alist_set k w es = es[i := (k, w)] \<and> fst (es ! i) = k"
  by (induction es arbitrary: i) (auto split: if_splits)

lemma pick_one_less: "pick_one part v = Some i \<Longrightarrow> i < length (kids v)"
  by (cases "(part, v)" rule: pick_one.cases)
    (auto simp: pick_index_def dest: findStructFieldByJSONTag_Some find_key_map_of(2)
      split: option.splits if_splits)

lemma put_kids [simp]: "with_kids v (kids v) = v"
  by (cases v rule: kids.cases) (auto simp: zip_map_fst_snd)

lemma kids_put: "length ws = length (kids v) \<Longrightarrow> kids (with_kids v ws) = ws"
  by (cases v rule: kids.cases) auto

lemma put_put: "length ws = length (kids v) \<Longrightarrow> with_kids (with_kids v ws) us = with_kids v us"
  by (cases v rule: kids.cases) auto

lemma bad_key_put [simp]: "bad_key part (with_kids v ws) = bad_key part v"
  by (cases v rule: kids.cases) auto

lemma find_key_cong: "map fst es = map fst fs \<Longrightarrow> find_key k es = find_key k fs"
proof (induction es arbitrary: fs)
  case Nil
  then show ?case by simp
next
  case (Cons e es)
  then show ?case by (cases fs) auto
qed

lemma pick_put: "length ws = length (kids v) \<Longrightarrow> pick part (with_kids v ws) = pick part v"
  by (cases v rule: kids.cases)
    (auto simp: pick_def fun_eq_iff intro: findStructFieldByJSONTag_cong find_key_cong
      cong: findStructFieldByJSONTag_cong find_key_cong)

lemma kid_perm_put:
  "length ws = length (kids v) \<Longrightarrow> i < length ws \<Longrightarrow> kid_perm a r (with_kids v ws) i = kid_perm a r v i"
  by (cases v rule: kids.cases) auto

lemma kid_step_put:
  "length ws = length (kids v) \<Longrightarrow> i < length ws \<Longrightarrow>
     kid_step rec is_last part a r (with_kids v ws) i w = kid_step rec is_last part a r v i w"
  by (simp add: kid_step_def pick_put kid_perm_put)

text \<open>
  The scheme: every addressed child is run, every other child is kept.
\<close>

definition kids_run ::
  "(bool \<Rightarrow> perm \<Rightarrow> goval \<Rightarrow> clear_result) \<Rightarrow> bool \<Rightarrow> string \<Rightarrow> bool \<Rightarrow> perm \<Rightarrow> goval \<Rightarrow> goval list
     \<Rightarrow> bool" where
  "kids_run rec is_last part a r v ws \<longleftrightarrow>
     length ws = length (kids v) \<and>
     (\<forall>i < length (kids v). kid_step rec is_last part a r v i (kids v ! i) = Some (ws ! i))"

text \<open>A loop over all children, in the two shapes the model has it.\<close>

lemma erase_traverse_pairs:
  "traverse (\<lambda>(k, w). go_map (\<lambda>we. (k, fst we)) (f k w)) es = Inr fs \<longleftrightarrow>
     (\<exists>ws. fs = zip (map fst es) ws \<and> length ws = length es \<and>
        (\<forall>i < length es. erase (f (fst (es ! i)) (snd (es ! i))) = Some (ws ! i)))"
  (is "?T \<longleftrightarrow> ?W")
proof
  have run: "go_map (\<lambda>we. (k, fst we)) (f k w) = Inr ku \<longleftrightarrow> fst ku = k \<and> erase (f k w) = Some (snd ku)"
    for k w ku
    by (cases "f k w"; cases ku) auto
  show ?W if ?T
  proof (intro exI conjI)
    from that have len: "length fs = length es" by (rule traverse_length)
    have nth: "fst (fs ! i) = fst (es ! i) \<and> erase (f (fst (es ! i)) (snd (es ! i))) = Some (snd (fs ! i))"
      if "i < length es" for i
      using traverse_nth [OF \<open>?T\<close> that] run by (simp add: split_beta)
    show "fs = zip (map fst es) (map snd fs)"
      using len nth by (auto simp: list_eq_iff_nth_eq prod_eq_iff)
    show "length (map snd fs) = length es" by (simp add: len)
    show "\<forall>i < length es. erase (f (fst (es ! i)) (snd (es ! i))) = Some (map snd fs ! i)"
      using len nth by simp
  qed
  show ?T if ?W
    using that run by (auto simp: traverse_Inr_iff list_all2_conv_all_nth split_beta)
qed

lemma erase_traverse:
  "traverse (\<lambda>w. go_map fst (f w)) xs = Inr ws \<longleftrightarrow>
     length ws = length xs \<and> (\<forall>i < length xs. erase (f (xs ! i)) = Some (ws ! i))"
proof -
  have "go_map fst (f w) = Inr u \<longleftrightarrow> erase (f w) = Some u" for w u
    by (cases "f w") auto
  then show ?thesis
    by (auto simp: traverse_Inr_iff list_all2_conv_all_nth)
qed

lemma kids_run_star:
  "kids_run rec is_last ''*'' a r v ws \<longleftrightarrow>
     length ws = length (kids v) \<and>
     (\<forall>i < length (kids v). kid_run rec is_last (kid_perm a r v i) (kids v ! i) = Some (ws ! i))"
  by (simp add: kids_run_def kid_step_def pick_def)

lemma kids_run_one:
  assumes "part \<noteq> ''*''" and "pick_one part v = Some i"
  shows "kids_run rec is_last part a r v ws \<longleftrightarrow>
     (\<exists>u. kid_run rec is_last (kid_perm a r v i) (kids v ! i) = Some u \<and> ws = (kids v)[i := u])"
  using assms pick_one_less [OF assms(2)]
  by (auto simp: kids_run_def kid_step_def pick_def list_eq_iff_nth_eq nth_list_update)

lemma kids_run_none:
  assumes "part \<noteq> ''*''" and "pick_one part v = None"
  shows "kids_run rec is_last part a r v ws \<longleftrightarrow> ws = kids v"
  using assms by (auto simp: kids_run_def kid_step_def pick_def list_eq_iff_nth_eq)

lemma zip_update_snd:
  "i < length fs \<Longrightarrow> zip (map fst fs) ((map snd fs)[i := u]) = fs[i := (fst (fs ! i), u)]"
  by (auto simp: list_eq_iff_nth_eq nth_list_update prod_eq_iff)

lemma erase_case_Some:
  "(case m of Inl p \<Rightarrow> None | Inr x \<Rightarrow> Some (g x)) = Some y \<longleftrightarrow> (\<exists>x. m = Inr x \<and> y = g x)"
  by (cases m) auto

lemma erase_eq_Some: "erase m = Some w \<longleftrightarrow> (\<exists>e. m = Inr (w, e))"
  by (cases m) auto

lemma clear_struct_run:
  "erase (clear_struct rec is_last part a r fs) = Some v' \<longleftrightarrow>
     (\<exists>ws. v' = with_kids (VStruct fs) ws \<and> kids_run rec is_last part a r (VStruct fs) ws)"
proof (cases "part = ''*''")
  case True
  then show ?thesis
    by (auto simp: clear_struct_def erase_case_Some erase_traverse_pairs kids_run_star
        erase_clear_child Let_def)
next
  case False
  show ?thesis
  proof (cases "findStructFieldByJSONTag fs part")
    case None
    with False show ?thesis
      by (auto simp: clear_struct_def kids_run_none zip_map_fst_snd)
  next
    case (Some i)
    then have "i < length fs" using findStructFieldByJSONTag_Some by blast
    with False Some show ?thesis
      by (auto simp: clear_struct_def kids_run_one zip_update_snd erase_case_Some Let_def
          erase_clear_child [symmetric] erase_eq_Some)
  qed
qed

lemma clear_map_run:
  "erase (clear_map rec is_last part r s t m) = Some v' \<longleftrightarrow>
     \<not> bad_key part (VMap s t m) \<and>
     (\<exists>ws. v' = with_kids (VMap s t m) ws \<and> kids_run rec is_last part a r (VMap s t m) ws)"
proof (cases m)
  case None
  then show ?thesis by (auto simp: clear_map_def kids_run_def)
next
  case (Some es)
  show ?thesis
  proof (cases "part = ''*''")
    case True
    with Some show ?thesis
      by (auto simp: clear_map_def erase_case_Some erase_traverse_pairs kids_run_star
          erase_clear_entry)
  next
    case False
    show ?thesis
    proof (cases "find_key part es")
      case None
      with False \<open>m = Some es\<close> show ?thesis
        by (auto simp: clear_map_def kids_run_none zip_map_fst_snd find_key_map_of(1))
    next
      case (Some i)
      note i = find_key_map_of(2) [OF Some]
      with False Some \<open>m = Some es\<close> show ?thesis
        by (auto simp: clear_map_def kids_run_one zip_update_snd erase_case_Some
            erase_clear_entry [symmetric] erase_eq_Some)
    qed
  qed
qed

lemma clear_elems_run:
  assumes v: "kids v = xs" "\<And>i. kid_perm a r v i = (r = RW \<and> b, b, ro_perm r)"
    and one: "pick_one part v = pick_index part (length xs)"
  shows "(\<exists>e. clear_elems rec is_last part b r xs = Inr (ws, e)) \<longleftrightarrow>
     kids_run rec is_last part a r v ws"
proof (cases "part = ''*''")
  case True
  with v show ?thesis
    by (auto simp: clear_elems_def kids_run_star erase_traverse erase_clear_child)
next
  case False
  show ?thesis
  proof (cases "pick_index part (length xs)")
    case None
    with False v one show ?thesis
      by (auto simp: clear_elems_def kids_run_none pick_index_def split: option.splits if_splits)
  next
    case (Some i)
    with False v one have
      "kids_run rec is_last part a r v ws \<longleftrightarrow>
         (\<exists>u e. clear_child rec is_last b (ro_perm r) (xs ! i) = Inr (u, e) \<and> ws = xs[i := u])"
      using erase_clear_child [of rec is_last b "ro_perm r" "xs ! i", symmetric]
      by (auto simp: kids_run_one erase_eq_Some)
    with Some False show ?thesis
      by (auto simp: clear_elems_def pick_index_def split: option.splits if_splits)
  qed
qed

lemma clear_kind_run:
  "erase (clear_kind rec is_last part a r v) = Some v' \<longleftrightarrow>
     \<not> bad_key part v \<and> (\<exists>ws. v' = with_kids v ws \<and> kids_run rec is_last part a r v ws)"
proof -
  have slice: "(\<exists>e. clear_elems rec is_last part True r xs = Inr (ws, e)) \<longleftrightarrow>
      kids_run rec is_last part a r (VSlice t (Some xs)) ws" for t xs ws
    by (rule clear_elems_run) auto
  have array: "(\<exists>e. clear_elems rec is_last part a r xs = Inr (ws, e)) \<longleftrightarrow>
      kids_run rec is_last part a r (VArray t xs) ws" for t xs ws
    by (rule clear_elems_run) auto
  have empty: "\<exists>e. clear_elems rec is_last part True r [] = Inr ([], e)"
    by (auto simp: clear_elems_def split: option.splits)
  show ?thesis
  proof (cases v)
    case (VSlice t xs)
    then show ?thesis
      using slice empty by (cases xs) (auto simp: erase_case_Some kids_run_def)
  next
    case (VArray t xs)
    then show ?thesis using array by (auto simp: erase_case_Some)
  next
    case (VMap s t m)
    then show ?thesis using clear_map_run by simp
  qed (auto simp: clear_struct_run kids_run_def)
qed

end
