(* ===== verification/ClearLaws.thy ===== *)
theory ClearLaws
  imports ClearScheme
begin

text \<open>
  What \<open>ClearByPath\<close> guarantees: it only zeroes, it zeroes everything the path addresses and
  nothing else, it is idempotent, and no later pass undoes an earlier one, which is the contract
  \<open>redaction\<close>.
\<close>

section \<open>Only zeroing\<close>

lemma map_fst_zip_put: "length ws = length fs \<Longrightarrow> map fst (zip (map fst fs) ws) = map fst fs"
  by simp

lemma lowers_put:
  assumes "length ws = length (kids v)" and "\<And>i. i < length ws \<Longrightarrow> lowers (kids v ! i) (ws ! i)"
  shows "lowers v (with_kids v ws)"
  using assms by (cases v rule: kids.cases)
    (auto intro!: lowers_struct lowers_map lowers_slice lowers_array lowers_refl)

definition only_lowers :: "(bool \<Rightarrow> perm \<Rightarrow> goval \<Rightarrow> clear_result) \<Rightarrow> bool" where
  "only_lowers rec \<longleftrightarrow> (\<forall>a r w w'. erase (rec a r w) = Some w' \<longrightarrow> lowers w w')"

lemma kid_step_lowers:
  "only_lowers rec \<Longrightarrow> kid_step rec is_last part a r v i w = Some w' \<Longrightarrow> lowers w w'"
  by (auto simp: kid_step_def kid_run_def only_lowers_def lowers_refl lowers_zero
      split: if_splits prod.splits)

lemma clear_kind_lowers:
  assumes "only_lowers rec" and "erase (clear_kind rec is_last part a r v) = Some v'"
  shows "lowers v v'"
proof -
  from assms(2) obtain ws where v': "v' = with_kids v ws" and ws: "kids_run rec is_last part a r v ws"
    by (auto simp: clear_kind_run)
  from ws show ?thesis
    unfolding v' kids_run_def by (intro lowers_put) (auto intro: kid_step_lowers [OF assms(1)])
qed

text \<open>Following one pointer, with errors dropped.\<close>

lemma clear_deref_other:
  "\<forall>t p. v \<noteq> VPtr t p \<Longrightarrow>
     clear_deref rec is_last part a r v = clear_kind rec is_last part a r v"
  by (cases v) (simp_all del: clear_kind.simps)

lemma clear_deref_cases:
  obtains (nil) t where "v = VPtr t None"
      "\<And>rec is_last part a r. erase (clear_deref rec is_last part a r v) = Some v"
  | (ptr) t w where "v = VPtr t (Some w)"
      "\<And>rec is_last part a r. erase (clear_deref rec is_last part a r v) =
         map_option (\<lambda>u. VPtr t (Some u)) (erase (clear_kind rec is_last part True r w))"
  | (kind) "\<forall>t p. v \<noteq> VPtr t p"
      "\<And>rec is_last part a r. clear_deref rec is_last part a r v = clear_kind rec is_last part a r v"
proof (cases "\<exists>t p. v = VPtr t p")
  case True
  then obtain t p where v: "v = VPtr t p" by blast
  show thesis
  proof (cases p)
    case None
    with v show thesis by (intro nil [of t]) simp_all
  next
    case (Some w)
    have "erase (clear_deref rec is_last part a r v) =
        map_option (\<lambda>u. VPtr t (Some u)) (erase (clear_kind rec is_last part True r w))"
      for rec is_last part a r
      unfolding v Some clear_deref.simps
      by (cases "clear_kind rec is_last part True r w") (simp_all del: clear_kind.simps)
    with v Some show thesis by (intro ptr [of t w]) (simp_all del: clear_kind.simps clear_deref.simps)
  qed
next
  case False
  then show thesis by (intro kind) (simp_all add: clear_deref_other del: clear_kind.simps clear_deref.simps)
qed

lemma clear_deref_lowers:
  assumes "only_lowers rec"
  shows "only_lowers (clear_deref rec is_last part)"
  unfolding only_lowers_def
proof (intro allI impI)
  fix a r v v'
  assume run: "erase (clear_deref rec is_last part a r v) = Some v'"
  show "lowers v v'"
  proof (cases v rule: clear_deref_cases)
    case nil
    with run show ?thesis by (simp add: lowers_refl)
  next
    case (ptr t w)
    with run clear_kind_lowers [OF assms] show ?thesis by (auto intro: lowers_ptr)
  next
    case kind
    with run clear_kind_lowers [OF assms] show ?thesis by simp
  qed
qed

lemma clearRecursive_only_lowers: "only_lowers (clearRecursive parts)"
proof (induction parts)
  case Nil
  then show ?case by (simp add: only_lowers_def lowers_refl)
next
  case (Cons part rest)
  then show ?case by (simp add: clear_deref_lowers)
qed

lemma clearRecursive_lowers: "erase (clearRecursive parts a r v) = Some v' \<Longrightarrow> lowers v v'"
  using clearRecursive_only_lowers unfolding only_lowers_def by blast

section \<open>Fixpoints\<close>

text \<open>Running the descent on its own result changes nothing.\<close>

definition idem_run :: "(bool \<Rightarrow> perm \<Rightarrow> goval \<Rightarrow> clear_result) \<Rightarrow> bool" where
  "idem_run rec \<longleftrightarrow> (\<forall>a r w w'. erase (rec a r w) = Some w' \<longrightarrow> erase (rec a r w') = Some w')"

lemma kid_step_idem:
  "idem_run rec \<Longrightarrow> kid_step rec is_last part a r v i w = Some w' \<Longrightarrow>
     kid_step rec is_last part a r v i w' = Some w'"
  by (auto simp: kid_step_def kid_run_def idem_run_def split: if_splits prod.splits)

lemma clear_kind_idem:
  assumes "idem_run rec" and "erase (clear_kind rec is_last part a r v) = Some v'"
  shows "erase (clear_kind rec is_last part a r v') = Some v'"
proof -
  from assms(2) obtain ws where v': "v' = with_kids v ws" and nb: "\<not> bad_key part v"
    and run: "kids_run rec is_last part a r v ws"
    by (auto simp: clear_kind_run)
  from run have len: "length ws = length (kids v)" by (simp add: kids_run_def)
  have "kids_run rec is_last part a r v' ws"
    unfolding kids_run_def v'
    using run len by (auto simp: kids_run_def kids_put kid_step_put intro: kid_step_idem [OF assms(1)])
  moreover have "v' = with_kids v' ws" by (simp add: v' put_put len)
  ultimately show ?thesis using nb v' by (auto simp: clear_kind_run)
qed

lemma clear_deref_idem:
  assumes "idem_run rec"
  shows "idem_run (clear_deref rec is_last part)"
  unfolding idem_run_def
proof (intro allI impI)
  fix a r v v'
  assume run: "erase (clear_deref rec is_last part a r v) = Some v'"
  show "erase (clear_deref rec is_last part a r v') = Some v'"
  proof (cases v rule: clear_deref_cases)
    case nil
    with run show ?thesis by simp
  next
    case (ptr t w)
    with run obtain w' where "v' = VPtr t (Some w')"
      and "erase (clear_kind rec is_last part True r w) = Some w'"
      by auto
    then show ?thesis
      using clear_kind_idem [OF assms] by (fastforce simp: erase_eq_Some)
  next
    case kind
    with run have kr: "erase (clear_kind rec is_last part a r v) = Some v'" by simp
    then obtain ws where "v' = with_kids v ws" by (auto simp: clear_kind_run)
    with kind(1) have "\<forall>t p. v' \<noteq> VPtr t p" by (cases v rule: kids.cases) auto
    with clear_kind_idem [OF assms kr] show ?thesis by (simp add: clear_deref_other)
  qed
qed

lemma clearRecursive_idem: "idem_run (clearRecursive parts)"
proof (induction parts)
  case Nil
  then show ?case by (simp add: idem_run_def)
next
  case (Cons part rest)
  then show ?case by (simp add: clear_deref_idem)
qed

text \<open>
  A descent that returns on a value returns on the zero value of its type, unchanged: the zero
  value has no slice, map or pointer to enter, and its struct fields and array elements are zero
  values again.
\<close>

definition zero_fix :: "(bool \<Rightarrow> perm \<Rightarrow> goval \<Rightarrow> clear_result) \<Rightarrow> bool" where
  "zero_fix rec \<longleftrightarrow> (\<forall>a r w w'. wf_val w \<longrightarrow> erase (rec a r w) = Some w' \<longrightarrow>
     erase (rec a r (zero_of (type_of w))) = Some (zero_of (type_of w)))"

lemma kids_wf: "wf_val v \<Longrightarrow> i < length (kids v) \<Longrightarrow> wf_val (kids v ! i)"
  by (cases v rule: kids.cases) auto

text \<open>The children of the zero value, and what is the same for it and the value itself.\<close>

lemma kids_zero:
  assumes "wf_val v" and "i < length (kids (zero_of (type_of v)))"
  shows "i < length (kids v)"
    and "kids (zero_of (type_of v)) ! i = zero_of (type_of (kids v ! i))"
    and "pick part (zero_of (type_of v)) i = pick part v i"
    and "kid_perm a r (zero_of (type_of v)) i = kid_perm a r v i"
proof -
  have find: "findStructFieldByJSONTag (map (map_prod id zero_of \<circ> map_prod id type_of) fs) n =
      findStructFieldByJSONTag fs n" for fs n
    by (rule findStructFieldByJSONTag_cong) simp
  show "i < length (kids v)" "kids (zero_of (type_of v)) ! i = zero_of (type_of (kids v ! i))"
    "pick part (zero_of (type_of v)) i = pick part v i"
    "kid_perm a r (zero_of (type_of v)) i = kid_perm a r v i"
    using assms find by (cases v; auto simp: pick_def all_set_conv_all_nth)+
qed

lemma bad_key_zero: "bad_key part (zero_of (type_of v)) = bad_key part v"
  by (cases v) auto

lemma kid_run_zero:
  assumes "zero_fix rec" and "wf_val w" and "kid_run rec is_last p w = Some w'"
  shows "kid_run rec is_last p (zero_of (type_of w)) = Some (zero_of (type_of w))"
  using assms by (auto simp: kid_run_def zero_fix_def split: if_splits prod.splits)

lemma clear_kind_zero:
  assumes rec: "zero_fix rec" and wf: "wf_val v"
    and run: "erase (clear_kind rec is_last part a r v) = Some v'"
  shows "erase (clear_kind rec is_last part a r (zero_of (type_of v))) = Some (zero_of (type_of v))"
proof -
  let ?z = "zero_of (type_of v)"
  from run obtain ws where nb: "\<not> bad_key part v" and ws: "kids_run rec is_last part a r v ws"
    by (auto simp: clear_kind_run)
  have "kid_step rec is_last part a r ?z i (kids ?z ! i) = Some (kids ?z ! i)"
    if i: "i < length (kids ?z)" for i
  proof -
    note kz = kids_zero [OF wf i]
    from ws kz(1) have "kid_step rec is_last part a r v i (kids v ! i) = Some (ws ! i)"
      by (simp add: kids_run_def)
    then show ?thesis
      using kid_run_zero [OF rec kids_wf [OF wf kz(1)]] kz by (auto simp: kid_step_def split: if_splits)
  qed
  then have "kids_run rec is_last part a r ?z (kids ?z)" by (simp add: kids_run_def)
  then show ?thesis
    unfolding clear_kind_run using nb by (auto simp: bad_key_zero intro!: exI [of _ "kids ?z"])
qed

lemma clear_deref_zero:
  assumes "zero_fix rec"
  shows "zero_fix (clear_deref rec is_last part)"
  unfolding zero_fix_def
proof (intro allI impI)
  fix a r v v'
  assume wf: "wf_val v" and run: "erase (clear_deref rec is_last part a r v) = Some v'"
  show "erase (clear_deref rec is_last part a r (zero_of (type_of v))) = Some (zero_of (type_of v))"
  proof (cases v rule: clear_deref_cases)
    case kind
    from kind(1) have "\<forall>t p. zero_of (type_of v) \<noteq> VPtr t p" by (cases v) auto
    with kind run clear_kind_zero [OF assms wf] show ?thesis by (simp add: clear_deref_other)
  qed simp_all
qed

lemma clearRecursive_zero: "zero_fix (clearRecursive parts)"
proof (induction parts)
  case Nil
  then show ?case by (simp add: zero_fix_def)
next
  case (Cons part rest)
  then show ?case by (simp add: clear_deref_zero)
qed

lemma lowers_of_zero: "lowers v w \<Longrightarrow> v = zero_of t \<Longrightarrow> w = v"
proof (induction arbitrary: t rule: lowers.induct)
  case (lowers_zero v)
  then show ?case by simp
next
  case (lowers_ptr v w t')
  then show ?case by (cases t) auto
next
  case (lowers_slice ys xs t')
  then show ?case by (cases t) auto
next
  case (lowers_array ys xs t')
  from lowers_array.prems obtain n where xs: "xs = replicate n (zero_of t')" by (cases t) auto
  with lowers_array.IH lowers_array.hyps(1) have "ys = xs" by (intro nth_equalityI) auto
  then show ?case by simp
next
  case (lowers_map fs es s t')
  then show ?case by (cases t) auto
next
  case (lowers_struct gs fs)
  from lowers_struct.prems obtain ts where fs: "fs = map (map_prod id zero_of) ts" by (cases t) auto
  from lowers_struct.hyps(1) have len: "length gs = length fs" by (metis length_map)
  have "snd (gs ! i) = snd (fs ! i)" if "i < length fs" for i
    using lowers_struct.IH [OF that] that fs by (metis length_map nth_map snd_map_prod)
  with len map_fst_nth [OF lowers_struct.hyps(1)] have "gs = fs"
    by (intro nth_equalityI) (auto simp: prod_eq_iff)
  then show ?case by simp
qed simp

text \<open>The values a descent leaves alone are closed under zeroing of parts.\<close>

definition down_closed :: "(bool \<Rightarrow> perm \<Rightarrow> goval \<Rightarrow> clear_result) \<Rightarrow> bool" where
  "down_closed rec \<longleftrightarrow> (\<forall>a r v w. wf_val v \<longrightarrow> erase (rec a r v) = Some v \<longrightarrow> lowers v w \<longrightarrow>
     erase (rec a r w) = Some w)"

lemma lowers_cases:
  assumes "lowers v w"
  obtains (zero) "w = zero_of (type_of v)"
  | (ptr) t v1 w1 where "v = VPtr t (Some v1)" "w = VPtr t (Some w1)" "lowers v1 w1"
  | (kids) ws where "w = with_kids v ws" "length ws = length (kids v)"
      "\<And>i. i < length ws \<Longrightarrow> lowers (kids v ! i) (ws ! i)"
  using assms
proof (cases rule: lowers.cases)
  case lowers_refl
  then show thesis by (intro kids [of "ClearScheme.kids v"]) (auto intro: lowers.lowers_refl)
next
  case (lowers_slice ys xs t)
  then show thesis by (intro kids [of ys]) auto
next
  case (lowers_array ys xs t)
  then show thesis by (intro kids [of ys]) auto
next
  case (lowers_map fs es s t)
  moreover from this have "length fs = length es" by (metis length_map)
  moreover have "fs = zip (map fst es) (map snd fs)"
    using lowers_map by (metis zip_map_fst_snd)
  ultimately show thesis by (intro kids [of "map snd fs"]) auto
next
  case (lowers_struct gs fs)
  moreover from this have "length gs = length fs" by (metis length_map)
  moreover have "gs = zip (map fst fs) (map snd gs)"
    using lowers_struct by (metis zip_map_fst_snd)
  ultimately show thesis by (intro kids [of "map snd gs"]) auto
qed (use zero ptr in auto)

lemma kid_step_down:
  assumes "down_closed rec" and "zero_fix rec" and "wf_val w"
    and "kid_step rec is_last part a r v i w = Some w" and "lowers w u"
  shows "kid_step rec is_last part a r v i u = Some u"
proof (cases "pick part v i \<and> is_last")
  case True
  with assms(4) have w: "w = zero_of (type_of w)" and s: "fst (kid_perm a r v i)"
    by (auto simp: kid_step_def kid_run_def split: prod.splits if_splits)
  have "u = zero_of (type_of w)" using assms(5) w lowers_of_zero by metis
  with True s show ?thesis by (auto simp: kid_step_def kid_run_def split: prod.splits)
next
  case False
  with assms show ?thesis
    by (auto simp: kid_step_def kid_run_def down_closed_def split: prod.splits if_splits)
qed

lemma clear_kind_down:
  assumes rec: "down_closed rec" "zero_fix rec" and wf: "wf_val v"
    and fix_v: "erase (clear_kind rec is_last part a r v) = Some v" and low: "lowers v w"
  shows "erase (clear_kind rec is_last part a r w) = Some w"
  using low
proof (cases rule: lowers_cases)
  case zero
  with clear_kind_zero [OF rec(2) wf fix_v] show ?thesis by simp
next
  case (ptr t v1 w1)
  then show ?thesis by simp
next
  case (kids us)
  from fix_v obtain ws where nb: "\<not> bad_key part v" and eq: "v = with_kids v ws"
    and ws: "kids_run rec is_last part a r v ws"
    by (auto simp: clear_kind_run)
  then have "ws = ClearScheme.kids v" by (metis kids_put kids_run_def)
  with ws have step: "kid_step rec is_last part a r v i (ClearScheme.kids v ! i) = Some (ClearScheme.kids v ! i)"
    if "i < length us" for i
    using that kids(2) by (simp add: kids_run_def)
  have "kid_step rec is_last part a r v i (us ! i) = Some (us ! i)" if i: "i < length us" for i
    using kid_step_down [OF rec _ step [OF i] kids(3) [OF i]] kids_wf [OF wf] i kids(2) by simp
  then have "kids_run rec is_last part a r w us"
    by (simp add: kids_run_def kids(1,2) kids_put kid_step_put)
  moreover have "w = with_kids w us" by (simp add: kids(1,2) put_put)
  ultimately show ?thesis using nb kids(1) by (auto simp: clear_kind_run)
qed

inductive_cases lowers_ptrE: "lowers (VPtr t (Some v)) w"

lemma type_of_not_ptr: "type_of w = TPtr t \<longleftrightarrow> (\<exists>p. w = VPtr t p)"
  by (cases w) auto

lemma clear_deref_down:
  assumes "down_closed rec" and "zero_fix rec"
  shows "down_closed (clear_deref rec is_last part)"
  unfolding down_closed_def
proof (intro allI impI)
  fix a r v w
  assume wf: "wf_val v" and fix_v: "erase (clear_deref rec is_last part a r v) = Some v"
    and low: "lowers v w"
  show "erase (clear_deref rec is_last part a r w) = Some w"
  proof (cases v rule: clear_deref_cases)
    case (nil t)
    then show ?thesis using lowers_of_zero [OF low, of "TPtr t"] by simp
  next
    case (ptr t v1)
    with fix_v have fix1: "erase (clear_kind rec is_last part True r v1) = Some v1" by auto
    from ptr(1) wf have "wf_val v1" by simp
    note down = clear_kind_down [OF assms this fix1]
    from low ptr(1) consider "w = VPtr t None" | w1 where "w = VPtr t (Some w1)" "lowers v1 w1"
      by (auto elim!: lowers_ptrE intro: lowers_refl)
    then show ?thesis
    proof cases
      case 1
      then show ?thesis by simp
    next
      case 2
      with down show ?thesis by (fastforce simp: erase_eq_Some)
    qed
  next
    case kind
    with fix_v have "erase (clear_kind rec is_last part a r w) = Some w"
      using clear_kind_down [OF assms wf _ low] by simp
    moreover from kind(1) low have "\<forall>t p. w \<noteq> VPtr t p"
      by (cases v) (auto dest: lowers_type simp: type_of_not_ptr)
    ultimately show ?thesis by (simp add: clear_deref_other)
  qed
qed

lemma clearRecursive_down: "down_closed (clearRecursive parts)"
proof (induction parts)
  case Nil
  then show ?case by (simp add: down_closed_def)
next
  case (Cons part rest)
  then show ?case by (simp add: clear_deref_down clearRecursive_zero)
qed

section \<open>The contract of the redaction passes\<close>

definition clear_pass :: "string \<Rightarrow> goval \<Rightarrow> goval option" where
  "clear_pass path v = erase (ClearByPath v path)"

interpretation path_clearing: redaction wf_val clear_pass
proof
  fix v p w
  assume v: "wf_val v" and w: "clear_pass p v = Some w"
  then have "lowers v w"
    unfolding clear_pass_def ClearByPath_def by (intro clearRecursive_lowers)
  then show "wf_val w" using v by (rule lowers_wf)
  from w show "clear_pass p w = Some w"
    unfolding clear_pass_def ClearByPath_def
    using clearRecursive_idem [of "splitPath p"] by (simp add: idem_run_def)
next
  fix v p q w
  assume v: "wf_val v" and p: "clear_pass p v = Some v" and q: "clear_pass q v = Some w"
  from q have "lowers v w"
    unfolding clear_pass_def ClearByPath_def by (intro clearRecursive_lowers)
  with v p show "clear_pass p w = Some w"
    unfolding clear_pass_def ClearByPath_def
    using clearRecursive_down [of "splitPath p"] by (simp add: down_closed_def)
qed

section \<open>Effect and frame\<close>

text \<open>
  \<open>deref_val\<close> follows one pointer.  \<open>cleared parts v\<close>: everything the path addresses inside \<open>v\<close> is
  a zero value.
\<close>

fun deref_val :: "goval \<Rightarrow> goval" where
  "deref_val (VPtr t (Some w)) = w"
| "deref_val v = v"

primrec cleared :: "string list \<Rightarrow> goval \<Rightarrow> bool" where
  "cleared [] v = True"
| "cleared (part # rest) v =
     (\<forall>i < length (kids (deref_val v)). pick part (deref_val v) i \<longrightarrow>
        (if rest = [] then kids (deref_val v) ! i = zero_of (type_of (kids (deref_val v) ! i))
         else cleared rest (kids (deref_val v) ! i)))"

text \<open>
  A position is a list of child numbers.  \<open>value_at\<close> reads the value there, and \<open>touched\<close> says that
  the path addresses the position, something below it or something above it.
\<close>

primrec value_at :: "goval \<Rightarrow> nat list \<Rightarrow> goval option" where
  "value_at v [] = Some v"
| "value_at v (i # pos) =
     (if i < length (kids (deref_val v)) then value_at (kids (deref_val v) ! i) pos else None)"

primrec touched :: "string list \<Rightarrow> goval \<Rightarrow> nat list \<Rightarrow> bool" where
  "touched [] v pos = False"
| "touched (part # rest) v pos =
     (case pos of
        [] \<Rightarrow> True
      | i # qs \<Rightarrow> pick part (deref_val v) i \<and> (rest = [] \<or> touched rest (kids (deref_val v) ! i) qs))"

text \<open>One step of the descent through a pointer, as a run of the children of the pointee.\<close>

lemma clear_deref_run:
  assumes "erase (clear_deref rec is_last part a r v) = Some v'"
  obtains ws b where "deref_val v' = with_kids (deref_val v) ws" "length ws = length (kids (deref_val v))"
    "\<forall>i < length (kids (deref_val v)).
       kid_step rec is_last part b r (deref_val v) i (kids (deref_val v) ! i) = Some (ws ! i)"
proof (cases v rule: clear_deref_cases)
  case (nil t)
  with assms have "v' = VPtr t None" by simp
  with nil(1) show thesis by (intro that [of "[]"]) simp_all
next
  case (ptr t w)
  with assms obtain w' where v': "v' = VPtr t (Some w')"
    and "erase (clear_kind rec is_last part True r w) = Some w'"
    by auto
  then obtain ws where "w' = with_kids w ws" "kids_run rec is_last part True r w ws"
    unfolding clear_kind_run by blast
  with ptr(1) v' show thesis by (intro that [of ws True]) (simp_all add: kids_run_def)
next
  case kind
  then have d: "deref_val v = v" by (cases v) auto
  from assms kind obtain ws where v': "v' = with_kids v ws" and ws: "kids_run rec is_last part a r v ws"
    by (auto simp: clear_kind_run)
  moreover have "deref_val v' = v'" using kind(1) v' by (cases v rule: kids.cases) auto
  ultimately show thesis using d by (intro that [of ws a]) (simp_all add: kids_run_def)
qed

lemma kid_step_picked:
  assumes "kid_step rec is_last part a r v i w = Some u" and "pick part v i"
  shows "if is_last then u = zero_of (type_of u) else (\<exists>a' r'. erase (rec a' r' w) = Some u)"
  using assms by (cases "kid_perm a r v i") (auto simp: kid_step_def kid_run_def split: if_splits)

lemma clearRecursive_cleared:
  "erase (clearRecursive parts a r v) = Some v' \<Longrightarrow> cleared parts v'"
proof (induction parts arbitrary: a r v v')
  case Nil
  then show ?case by simp
next
  case (Cons part rest)
  from Cons.prems(1) have run: "erase (clear_deref (clearRecursive rest) (rest = []) part a r v) = Some v'"
    by (simp only: clearRecursive.simps)
  from run obtain ws b where d: "deref_val v' = with_kids (deref_val v) ws"
    and len: "length ws = length (kids (deref_val v))"
    and step: "\<forall>i < length (kids (deref_val v)).
      kid_step (clearRecursive rest) (rest = []) part b r (deref_val v) i (kids (deref_val v) ! i) = Some (ws ! i)"
    by (rule clear_deref_run)
  have "if rest = [] then ws ! i = zero_of (type_of (ws ! i)) else cleared rest (ws ! i)"
    if "i < length ws" and "pick part (deref_val v) i" for i
    using kid_step_picked [OF step [rule_format, of i]] that len Cons.IH by (auto split: if_splits)
  then show ?case by (simp add: d kids_put [OF len] pick_put [OF len])
qed

lemma clearRecursive_frame:
  "erase (clearRecursive parts a r v) = Some v' \<Longrightarrow> \<not> touched parts v pos \<Longrightarrow> value_at v' pos = value_at v pos"
proof (induction parts arbitrary: a r v v' pos)
  case Nil
  then show ?case by simp
next
  case (Cons part rest)
  from Cons.prems(1) have run: "erase (clear_deref (clearRecursive rest) (rest = []) part a r v) = Some v'"
    by (simp only: clearRecursive.simps)
  from run obtain ws b where d: "deref_val v' = with_kids (deref_val v) ws"
    and len: "length ws = length (kids (deref_val v))"
    and step: "\<forall>i < length (kids (deref_val v)).
      kid_step (clearRecursive rest) (rest = []) part b r (deref_val v) i (kids (deref_val v) ! i) = Some (ws ! i)"
    by (rule clear_deref_run)
  from Cons.prems(2) obtain i qs where pos: "pos = i # qs" by (cases pos) auto
  show ?case
  proof (cases "i < length ws")
    case False
    with pos d len show ?thesis by (simp add: kids_put)
  next
    case True
    have "value_at (ws ! i) qs = value_at (kids (deref_val v) ! i) qs"
    proof (cases "pick part (deref_val v) i")
      case False
      with step [rule_format, of i] True len show ?thesis by (simp add: kid_step_def)
    next
      case picked: True
      with Cons.prems(2) pos have "rest \<noteq> []" and "\<not> touched rest (kids (deref_val v) ! i) qs" by auto
      moreover obtain a' r' where
        "erase (clearRecursive rest a' r' (kids (deref_val v) ! i)) = Some (ws ! i)"
        using kid_step_picked [OF step [rule_format, of i] picked] True len \<open>rest \<noteq> []\<close> by auto
      ultimately show ?thesis by (intro Cons.IH)
    qed
    with True pos d len show ?thesis by (simp add: kids_put)
  qed
qed

end
