(* ===== verification/ClearProps.thy ===== *)
theory ClearProps
  imports ClearLaws
begin

text \<open>
  The properties of \<open>internal/utils.go\<close>: the path syntax, the effect and the frame of
  \<open>ClearByPath\<close>, its errors, and the shapes of data on which it cannot panic.  The value
  \<open>clr_outer\<close> is the fixture of \<open>internal/utils_test.go\<close>.
\<close>

section \<open>The fixture of the tests\<close>

definition tagged :: "string \<Rightarrow> string \<Rightarrow> struct_field" where
  "tagged name tag = \<lparr>sf_name = name, sf_pkgpath = [], sf_json = tag, sf_embedded = False\<rparr>"

definition clr_inner :: "string \<Rightarrow> string \<Rightarrow> goval" where
  "clr_inner s k =
     VStruct [(tagged ''Secret'' ''secret'', VString s), (tagged ''Keep'' ''keep'', VString k)]"

definition clr_inner_type :: gotype where
  "clr_inner_type =
     TStruct [(tagged ''Secret'' ''secret'', TString), (tagged ''Keep'' ''keep'', TString)]"

definition clr_outer_with :: "goval list \<Rightarrow> goval" where
  "clr_outer_with items =
     VStruct
       [(tagged ''Name'' ''name'', VString ''name''),
        (tagged ''Inner'' ''inner'', clr_inner ''s'' ''keep''),
        (tagged ''Items'' ''items'',
           VSlice clr_inner_type (Some items)),
        (tagged ''M'' ''m'', VMap True clr_inner_type (Some [(''x'', clr_inner ''sx'' ''kx'')])),
        (tagged ''Labels'' ''labels'',
           VMap True TString (Some [(''secret'', VString ''v''), (''keep'', VString ''v'')])),
        (tagged ''Dotted'' ''dotted'', VMap True TString (Some [(''a.b.c'', VString ''v'')]))]"

definition clr_outer :: goval where
  "clr_outer = clr_outer_with [clr_inner ''s0'' ''k0'', clr_inner ''s1'' ''k1'']"

definition clr_root :: goval where
  "clr_root = VPtr (type_of clr_outer) (Some clr_outer)"

section \<open>Path syntax\<close>

text \<open>A part is written as it is, or between single quotes, inside which a dot is plain.\<close>

definition write_part :: "bool \<times> string \<Rightarrow> string" where
  "write_part qp = (if fst qp then CHR 0x27 # snd qp @ [CHR 0x27] else snd qp)"

definition writable :: "bool \<times> string \<Rightarrow> bool" where
  "writable qp \<longleftrightarrow> CHR 0x27 \<notin> set (snd qp) \<and> (fst qp \<or> CHR ''.'' \<notin> set (snd qp))"

lemma splitPath_loop_plain:
  "CHR 0x27 \<notin> set w \<Longrightarrow> q \<or> CHR ''.'' \<notin> set w \<Longrightarrow>
     splitPath_loop parts buf q (w @ cs) = splitPath_loop parts (buf @ w) q cs"
  by (induction w arbitrary: buf) auto

lemma splitPath_loop_part:
  "writable qp \<Longrightarrow>
     splitPath_loop parts buf False (write_part qp @ cs) = splitPath_loop parts (buf @ snd qp) False cs"
  by (cases qp) (auto simp: write_part_def writable_def splitPath_loop_plain)

lemma splitPath_loop_Join:
  assumes "\<forall>qp \<in> set qps. writable qp" and "qps \<noteq> []" and "snd (last qps) \<noteq> []"
  shows "splitPath_loop parts [] False (Join CHR ''.'' (map write_part qps)) = parts @ map snd qps"
  using assms
proof (induction qps arbitrary: parts)
  case Nil
  then show ?case by simp
next
  case (Cons qp qps)
  show ?case
  proof (cases qps)
    case Nil
    with Cons.prems show ?thesis
      using splitPath_loop_part [of qp parts "[]" "[]"] by simp
  next
    case (Cons rp rps)
    then have "Join CHR ''.'' (map write_part (qp # qps)) =
        write_part qp @ CHR ''.'' # Join CHR ''.'' (map write_part qps)" by simp
    with Cons.IH [of "parts @ [snd qp]"] Cons.prems \<open>qps = rp # rps\<close> show ?thesis
      by (simp add: splitPath_loop_part)
  qed
qed

text \<open>
  C37: \<open>splitPath\<close> reads back what was written: parts joined by dots, each plain or between single
  quotes (no part contains a quote, a plain part no dot, and the last part is not empty), are
  returned unchanged.
\<close>

theorem splitPath_roundtrip:
  assumes "\<forall>qp \<in> set qps. writable qp" and "qps \<noteq> []" and "snd (last qps) \<noteq> []"
  shows "splitPath (Join CHR ''.'' (map write_part qps)) = map snd qps"
  using splitPath_loop_Join [OF assms, of "[]"] by (simp add: splitPath_def)

theorem splitPath_roundtrip_witness:
  "splitPath (Join CHR ''.'' (map write_part [(False, ''dotted''), (True, ''a.b.c'')]))
     = [''dotted'', ''a.b.c'']"
  using splitPath_roundtrip [of "[(False, ''dotted''), (True, ''a.b.c'')]"]
  by (simp add: writable_def)

section \<open>Effect, frame, types\<close>

lemma ClearByPath_erase: "ClearByPath v path = Inr (v', e) \<Longrightarrow>
    erase (clearRecursive (splitPath path) False RW v) = Some v'"
  by (simp add: ClearByPath_def)

text \<open>
  C3: when \<open>ClearByPath\<close> returns, with or without an error, everything its path addresses holds
  the zero value of its type, and the value at every other position is what it was before.
\<close>

theorem ClearByPath_effect_and_frame:
  assumes "ClearByPath v path = Inr (v', e)"
  shows "cleared (splitPath path) v' \<and>
    (\<forall>pos. \<not> touched (splitPath path) v pos \<longrightarrow> value_at v' pos = value_at v pos)"
  using clearRecursive_cleared [OF ClearByPath_erase [OF assms]]
    clearRecursive_frame [OF ClearByPath_erase [OF assms]] by blast

text \<open>
  C33: \<open>ClearByPath\<close> only zeroes: the value it leaves is the old one with some parts replaced by
  their zero values, it is well-formed when the old one was, and it has the same type.
\<close>

theorem ClearByPath_only_zeroes:
  assumes "wf_val v" and "ClearByPath v path = Inr (v', e)"
  shows "lowers v v' \<and> wf_val v' \<and> type_of v' = type_of v"
proof -
  have "lowers v v'" by (rule clearRecursive_lowers [OF ClearByPath_erase [OF assms(2)]])
  then show ?thesis using assms(1) by (simp add: lowers_wf lowers_type)
qed

section \<open>Errors\<close>

definition err_keep :: "(bool \<Rightarrow> perm \<Rightarrow> goval \<Rightarrow> clear_result) \<Rightarrow> bool" where
  "err_keep rec \<longleftrightarrow> (\<forall>a r w w' e. rec a r w = Inr (w', Some e) \<longrightarrow> w' = w)"

lemma clear_child_err:
  "err_keep rec \<Longrightarrow> clear_child rec is_last a r w = Inr (w', Some e) \<Longrightarrow> w' = w"
  unfolding err_keep_def clear_child_def by (cases is_last) (simp_all, blast)

lemma clear_entry_err:
  "err_keep rec \<Longrightarrow> clear_entry rec is_last r w = Inr (w', Some e) \<Longrightarrow> w' = w"
  unfolding err_keep_def clear_entry_def by (cases is_last) (simp_all, blast)

lemma clear_struct_err:
  assumes "err_keep rec" and "clear_struct rec is_last part a r fs = Inr (v', Some e)"
  shows "v' = VStruct fs"
  using assms(2)
  by (auto simp: clear_struct_def dest!: clear_child_err [OF assms(1)] split: if_splits option.splits)

lemma clear_map_err:
  assumes "err_keep rec" and "clear_map rec is_last part r s t m = Inr (v', Some e)"
  shows "v' = VMap s t m"
  using assms(2)
  by (auto simp: clear_map_def alist_set_idem dest!: clear_entry_err [OF assms(1)]
      split: if_splits option.splits)

lemma clear_elems_err:
  assumes "err_keep rec" and "clear_elems rec is_last part a r xs = Inr (ys, Some e)"
  shows "ys = xs"
  using assms(2)
  by (auto simp: clear_elems_def dest!: clear_child_err [OF assms(1)] split: if_splits option.splits)

lemma clear_kind_err:
  assumes "err_keep rec" and "clear_kind rec is_last part a r v = Inr (v', Some e)"
  shows "v' = v"
  using assms(2) clear_elems_err [OF assms(1)]
  by (cases "(rec, is_last, part, a, r, v)" rule: clear_kind.cases)
    (auto dest: clear_struct_err [OF assms(1)] clear_map_err [OF assms(1)])

lemma clear_deref_err:
  assumes "err_keep rec"
  shows "err_keep (clear_deref rec is_last part)"
  unfolding err_keep_def
proof (intro allI impI)
  fix a r v v' e
  assume run: "clear_deref rec is_last part a r v = Inr (v', Some e)"
  show "v' = v"
  proof (cases v rule: clear_deref_cases)
    case nil
    with run show ?thesis by simp
  next
    case (ptr t w)
    with run show ?thesis
      by (auto simp del: clear_kind.simps dest: clear_kind_err [OF assms])
  next
    case kind
    with run clear_kind_err [OF assms] show ?thesis by metis
  qed
qed

lemma clearRecursive_err: "err_keep (clearRecursive parts)"
proof (induction parts)
  case Nil
  then show ?case by (simp add: err_keep_def)
next
  case (Cons part rest)
  then show ?case by (simp add: clear_deref_err)
qed

text \<open>
  C35: a path that \<open>ClearByPath\<close> reports an error for has changed nothing.
\<close>

theorem ClearByPath_error_unchanged:
  "ClearByPath v path = Inr (v', Some e) \<Longrightarrow> v' = v"
  unfolding ClearByPath_def using clearRecursive_err [of "splitPath path"]
  unfolding err_keep_def by blast

section \<open>Panics\<close>

text \<open>
  The paths that cannot panic on values of a type: a \<open>*\<close> meets only structs whose fields are all
  exported, a name is looked up only in maps with string keys, and the path does not go on into a
  struct or an array that is stored directly in a map (an entry of a map is not addressable, so its
  own fields cannot be set).  The flag says whether the value is addressable.
\<close>

fun path_safe_kind :: "(bool \<Rightarrow> gotype \<Rightarrow> bool) \<Rightarrow> bool \<Rightarrow> string \<Rightarrow> bool \<Rightarrow> gotype \<Rightarrow> bool" where
  "path_safe_kind rec is_last part a (TStruct fs) =
     (if part = ''*'' then \<forall>f \<in> set fs. exported (fst f) \<and> (if is_last then a else rec a (snd f))
      else (case findStructFieldByJSONTag fs part of
              None \<Rightarrow> True
            | Some i \<Rightarrow> if is_last then a else rec a (snd (fs ! i))))"
| "path_safe_kind rec is_last part a (TMap s t) = ((part = ''*'' \<or> s) \<and> (is_last \<or> rec False t))"
| "path_safe_kind rec is_last part a (TSlice t) = (is_last \<or> rec True t)"
| "path_safe_kind rec is_last part a (TArray n t) = (if is_last then a else rec a t)"
| "path_safe_kind rec is_last part a t = True"

fun path_safe_deref :: "(bool \<Rightarrow> gotype \<Rightarrow> bool) \<Rightarrow> bool \<Rightarrow> string \<Rightarrow> bool \<Rightarrow> gotype \<Rightarrow> bool" where
  "path_safe_deref rec is_last part a (TPtr t) = path_safe_kind rec is_last part True t"
| "path_safe_deref rec is_last part a t = path_safe_kind rec is_last part a t"

primrec path_safe :: "string list \<Rightarrow> bool \<Rightarrow> gotype \<Rightarrow> bool" where
  "path_safe [] = (\<lambda>a t. True)"
| "path_safe (part # rest) = path_safe_deref (path_safe rest) (rest = []) part"

definition safe_run :: "(bool \<Rightarrow> gotype \<Rightarrow> bool) \<Rightarrow> (bool \<Rightarrow> perm \<Rightarrow> goval \<Rightarrow> clear_result) \<Rightarrow> bool" where
  "safe_run safe rec \<longleftrightarrow> (\<forall>a w. wf_val w \<longrightarrow> safe a (type_of w) \<longrightarrow> erase (rec a RW w) \<noteq> None)"

lemma find_field_types:
  "findStructFieldByJSONTag (map (map_prod id g) fs) name = findStructFieldByJSONTag fs name"
  by (induction fs name rule: findStructFieldByJSONTag.induct) auto

lemma found_field_exported: "findStructFieldByJSONTag fs name = Some i \<Longrightarrow> exported (fst (fs ! i))"
  by (auto simp: field_matches_def exported_def dest: findStructFieldByJSONTag_Some)

text \<open>A child that a safe path addresses may be set, or the rest of the path is safe for it.\<close>

lemma kid_safe:
  assumes "wf_val v" and "path_safe_kind safe is_last part a (type_of v)" and "i < length (kids v)"
    and "pick part v i"
  shows "\<exists>s b. kid_perm a RW v i = (s, b, RW) \<and> (if is_last then s else safe b (type_of (kids v ! i)))"
  using assms
proof (cases v rule: kids.cases)
  case (1 fs)
  then have i: "i < length fs" using assms(3) by simp
  show ?thesis
  proof (cases "part = ''*''")
    case True
    then have "\<forall>f \<in> set fs. exported (fst f) \<and> (if is_last then a else safe a (type_of (snd f)))"
      using assms(2) by (auto simp: 1)
    with nth_mem [OF i] have "exported (fst (fs ! i)) \<and> (if is_last then a else safe a (type_of (snd (fs ! i))))"
      by blast
    then show ?thesis using i by (simp add: 1 Let_def field_perm_def)
  next
    case False
    then have "findStructFieldByJSONTag fs part = Some i" using assms(4) by (simp add: 1 pick_def)
    with assms(2) False found_field_exported [OF this] i show ?thesis
      by (auto simp: 1 Let_def field_perm_def find_field_types)
  qed
qed (auto simp: all_set_conv_all_nth ro_perm_def)

lemma kids_run_total:
  assumes "\<And>i. i < length (kids v) \<Longrightarrow> kid_step rec is_last part a r v i (kids v ! i) \<noteq> None"
  shows "\<exists>ws. kids_run rec is_last part a r v ws"
  using assms unfolding kids_run_def
  by (intro exI [of _ "map (\<lambda>i. the (kid_step rec is_last part a r v i (kids v ! i))) [0..<length (kids v)]"])
    auto

lemma clear_kind_safe:
  assumes rec: "safe_run safe rec" and v: "wf_val v" "path_safe_kind safe is_last part a (type_of v)"
  shows "erase (clear_kind rec is_last part a RW v) \<noteq> None"
proof -
  have "kid_step rec is_last part a RW v i (kids v ! i) \<noteq> None" if i: "i < length (kids v)" for i
    using kid_safe [OF v i] kids_wf [OF v(1) i] rec
    by (auto simp: kid_step_def kid_run_def safe_run_def split: if_splits)
  then obtain ws where "kids_run rec is_last part a RW v ws" using kids_run_total by blast
  moreover have "\<not> bad_key part v" using v(2) by (cases v) auto
  ultimately have "erase (clear_kind rec is_last part a RW v) = Some (with_kids v ws)"
    by (auto simp: clear_kind_run)
  then show ?thesis by simp
qed

lemma path_safe_deref_other:
  "\<forall>t p. v \<noteq> VPtr t p \<Longrightarrow>
     path_safe_deref safe is_last part a (type_of v) = path_safe_kind safe is_last part a (type_of v)"
  by (cases v) simp_all

lemma clear_deref_safe:
  assumes "safe_run safe rec"
  shows "safe_run (path_safe_deref safe is_last part) (clear_deref rec is_last part)"
  unfolding safe_run_def
proof (intro allI impI)
  fix a v
  assume v: "wf_val v" "path_safe_deref safe is_last part a (type_of v)"
  show "erase (clear_deref rec is_last part a RW v) \<noteq> None"
  proof (cases v rule: clear_deref_cases)
    case nil
    then show ?thesis by simp
  next
    case (ptr t w)
    with v clear_kind_safe [OF assms, of w is_last part True] show ?thesis by auto
  next
    case kind
    with v clear_kind_safe [OF assms, of v is_last part a] show ?thesis
      by (simp add: path_safe_deref_other)
  qed
qed

lemma clearRecursive_safe: "safe_run (path_safe parts) (clearRecursive parts)"
proof (induction parts)
  case Nil
  then show ?case by (simp add: safe_run_def)
next
  case (Cons part rest)
  then show ?case by (simp add: clear_deref_safe)
qed

lemma ClearByPath_returns:
  assumes "wf_val v" and "path_safe (splitPath path) False (type_of v)"
  shows "\<exists>v' e. ClearByPath v path = Inr (v', e)"
proof -
  have "erase (ClearByPath v path) \<noteq> None"
    unfolding ClearByPath_def using clearRecursive_safe assms unfolding safe_run_def by blast
  then show ?thesis by (auto simp: erase_eq_Some)
qed


section \<open>The fixture evaluated\<close>

definition clr_root_cleared :: goval where
  "clr_root_cleared =
     VPtr (type_of clr_outer) (Some (clr_outer_with [clr_inner [] ''k0'', clr_inner [] ''k1'']))"

lemma clr_items_secret: "ClearByPath clr_root ''items.*.secret'' = Inr (clr_root_cleared, None)"
  by code_simp

lemma clr_items_range: "ClearByPath clr_root ''items.5.secret'' = Inr (clr_root, Some (InvalidIndex ''5''))"
  by code_simp

lemma clr_outer_wf: "wf_val clr_outer" "wf_val clr_root"
  by code_simp+

theorem ClearByPath_effect_and_frame_witness:
  "ClearByPath clr_root ''items.*.secret'' = Inr (clr_root_cleared, None) \<and>
   cleared (splitPath ''items.*.secret'') clr_root_cleared \<and>
   value_at clr_root_cleared [2, 1, 1] = value_at clr_root [2, 1, 1]"
proof -
  have "\<not> touched (splitPath ''items.*.secret'') clr_root [2, 1, 1]" by code_simp
  with ClearByPath_effect_and_frame [OF clr_items_secret] clr_items_secret show ?thesis by blast
qed

theorem ClearByPath_only_zeroes_witness:
  "wf_val clr_root \<and> lowers clr_root clr_root_cleared \<and> wf_val clr_root_cleared \<and>
   type_of clr_root_cleared = type_of clr_root"
  using ClearByPath_only_zeroes [OF clr_outer_wf(2) clr_items_secret] clr_outer_wf(2) by simp

theorem ClearByPath_error_unchanged_witness:
  "\<exists>v'. ClearByPath clr_root ''items.5.secret'' = Inr (v', Some (InvalidIndex ''5'')) \<and> v' = clr_root"
  using ClearByPath_error_unchanged [OF clr_items_range] clr_items_range by blast


text \<open>
  C39: a path that goes through an entry of a map into a field of a struct stored there panics: the
  entry is a copy that is not addressable, so the field cannot be set.  (This is the path
  \<open>m.x.secret\<close> of the test fixture, which the tests do not try.)
\<close>

theorem clear_below_map_entry_panics:
  assumes "map_of es k = Some (VStruct fs)" and "k \<noteq> ''*''" and "f \<noteq> ''*''"
    and "findStructFieldByJSONTag fs f = Some i"
  shows "clearRecursive [k, f] addr RW (VMap True t (Some es)) = Inl SetUnaddressable"
proof -
  have "exported (fst (fs ! i))"
    using findStructFieldByJSONTag_Some [OF assms(4)] by (simp add: field_matches_def exported_def)
  with assms show ?thesis
    by (simp add: clear_map_def clear_entry_def clear_struct_def clear_child_def set_zero_def
        field_perm_def ro_perm_def)
qed

theorem clear_below_map_entry_panics_witness:
  "clearRecursive [''x'', ''secret''] False RW
     (VMap True clr_inner_type (Some [(''x'', clr_inner ''sx'' ''kx'')])) = Inl SetUnaddressable \<and>
   ClearByPath clr_root ''m.x.secret'' = Inl SetUnaddressable"
proof -
  have "clearRecursive [''x'', ''secret''] False RW
     (VMap True clr_inner_type (Some [(''x'', clr_inner ''sx'' ''kx'')])) = Inl SetUnaddressable"
  proof (rule clear_below_map_entry_panics [where i = 0])
    show "map_of [(''x'', clr_inner ''sx'' ''kx'')] ''x'' =
      Some (VStruct [(tagged ''Secret'' ''secret'', VString ''sx''), (tagged ''Keep'' ''keep'', VString ''kx'')])"
      by (simp add: clr_inner_def)
    show "findStructFieldByJSONTag
      [(tagged ''Secret'' ''secret'', VString ''sx''), (tagged ''Keep'' ''keep'', VString ''kx'')] ''secret'' = Some 0"
      by code_simp
  qed simp_all
  moreover have "ClearByPath clr_root ''m.x.secret'' = Inl SetUnaddressable" by code_simp
  ultimately show ?thesis ..
qed

text \<open>
  Field lookup does not see the fields that an embedded struct promotes, although the JSON
  encoding of the value shows them on the outer level: such a path is an error and clears nothing.
\<close>

lemma promoted_field_not_cleared:
  assumes "\<forall>g \<in> set fs. \<not> field_matches name (fst g)" and "name \<noteq> ''*''"
  shows "clearRecursive (name # rest) addr r (VStruct fs) = Inr (VStruct fs, Some (FieldNotFound name))"
  using assms by (simp add: clear_struct_def findStructFieldByJSONTag_None [symmetric])

end
