(* ===== verification/GoNet.thy ===== *)
theory GoNet
  imports GoStrings "HOL-Library.Word"
begin

text \<open>
  The part of Go's \<open>net\<close> package the program calls: \<open>ParseIP\<close>, \<open>IP.To4\<close>, \<open>ParseCIDR\<close> and
  \<open>IPNet.Contains\<close>, on IPv4 and IPv6 addresses as byte slices, and \<open>SplitHostPort\<close>.  A parse
  error is \<open>None\<close>.  Addresses with a zone are refused by \<open>ParseIP\<close> and \<open>ParseCIDR\<close> alike, so a
  percent sign makes the address invalid.
\<close>

unbundle bit_operations_syntax

type_synonym byte = "8 word"
type_synonym ip = "byte list"

record ipnet =
  net_ip :: ip
  net_mask :: ip

section \<open>Parsing addresses\<close>

text \<open>One octet of a dotted address: decimal, no leading zero, at most 255.\<close>

definition parse_octet :: "string \<Rightarrow> byte option" where
  "parse_octet s =
     (if 1 < length s \<and> hd s = CHR ''0'' then None
      else (case read_nat s of
              None \<Rightarrow> None
            | Some n \<Rightarrow> if n \<le> 255 then Some (of_nat n) else None))"

definition parse_ipv4 :: "string \<Rightarrow> byte list option" where
  "parse_ipv4 s =
     (case map parse_octet (Split CHR ''.'' s) of
        [Some a, Some b, Some c, Some d] \<Rightarrow> Some [a, b, c, d]
      | _ \<Rightarrow> None)"

definition hex_digit :: "char \<Rightarrow> nat option" where
  "hex_digit c =
     (let n = of_char c in
      if 48 \<le> n \<and> n \<le> 57 then Some (n - 48)
      else if 97 \<le> n \<and> n \<le> 102 then Some (n - 87)
      else if 65 \<le> n \<and> n \<le> 70 then Some (n - 55)
      else None)"

text \<open>A group of hexadecimal digits at the start: its value, its length and the rest.\<close>

fun hex_group :: "string \<Rightarrow> 32 word \<Rightarrow> nat \<Rightarrow> 32 word \<times> nat \<times> string" where
  "hex_group [] acc off = (acc, off, [])"
| "hex_group (c # cs) acc off =
     (case hex_digit c of
        None \<Rightarrow> (acc, off, c # cs)
      | Some d \<Rightarrow> hex_group cs (push_bit 4 acc + of_nat d) (Suc off))"

lemma hex_group_length: "hex_group s acc off = (a, b, r) \<Longrightarrow> length r + b = length s + off"
  by (induction s acc off rule: hex_group.induct) (auto split: option.splits)

text \<open>
  The loop of \<open>netip.parseIPv6\<close>: the bytes so far, the position of the ellipsis, the rest of the
  input.  A group has one to four digits; an embedded IPv4 address ends the loop.
\<close>

function ipv6_loop :: "byte list \<Rightarrow> nat option \<Rightarrow> string \<Rightarrow> (byte list \<times> nat option \<times> string) option" where
  "ipv6_loop ip ell s =
     (if 16 \<le> length ip then Some (ip, ell, s)
      else
        (case hex_group s 0 0 of (acc, off, rest) \<Rightarrow>
           if off = 0 \<or> 4 < off then None
           else if rest \<noteq> [] \<and> hd rest = CHR ''.'' then
             (if ell = None \<and> length ip \<noteq> 12 then None
              else if 16 < length ip + 4 then None
              else map_option (\<lambda>v4. (ip @ v4, ell, [])) (parse_ipv4 s))
           else
             (let ip' = ip @ [ucast (drop_bit 8 acc), ucast acc] in
              (case rest of
                 [] \<Rightarrow> Some (ip', ell, [])
               | c # cs \<Rightarrow>
                   if c \<noteq> CHR '':'' \<or> cs = [] then None
                   else if hd cs = CHR '':'' then
                     (if ell \<noteq> None then None
                      else if tl cs = [] then Some (ip', Some (length ip'), [])
                      else ipv6_loop ip' (Some (length ip')) (tl cs))
                   else ipv6_loop ip' ell cs))))"
  by pat_completeness auto
termination
  by (relation "measure (\<lambda>(ip, ell, s). length s)") (auto dest!: hex_group_length [OF sym])

declare ipv6_loop.simps [simp del]

definition parse_ipv6 :: "string \<Rightarrow> byte list option" where
  "parse_ipv6 s =
     (if CHR ''%'' \<in> set s then None
      else
        (let (ell0, s0) = (if HasPrefix s ''::'' then (Some 0, drop 2 s) else (None, s)) in
         if ell0 \<noteq> None \<and> s0 = [] then Some (replicate 16 0)
         else
           (case ipv6_loop [] ell0 s0 of
              None \<Rightarrow> None
            | Some (ip, ell, rest) \<Rightarrow>
                if rest \<noteq> [] then None
                else if length ip < 16 then
                  (case ell of
                     None \<Rightarrow> None
                   | Some e \<Rightarrow> Some (take e ip @ replicate (16 - length ip) 0 @ drop e ip))
                else if ell \<noteq> None then None
                else Some ip)))"

text \<open>
  \<open>netip.ParseAddr\<close>: the first of the characters dot, colon and percent decides.  The flag says
  that the address is an IPv4 address, of 32 bits; its 16-byte form is IPv4-mapped.
\<close>

definition v4_in_v6_prefix :: "byte list" where
  "v4_in_v6_prefix = replicate 10 0 @ [255, 255]"

definition parse_addr :: "string \<Rightarrow> (bool \<times> ip) option" where
  "parse_addr s =
     (case find (\<lambda>c. c = CHR ''.'' \<or> c = CHR '':'' \<or> c = CHR ''%'') s of
        None \<Rightarrow> None
      | Some c \<Rightarrow>
          if c = CHR ''.'' then map_option (\<lambda>v4. (True, v4_in_v6_prefix @ v4)) (parse_ipv4 s)
          else if c = CHR '':'' then map_option (\<lambda>v6. (False, v6)) (parse_ipv6 s)
          else None)"

definition ParseIP :: "string \<Rightarrow> ip option" where
  "ParseIP s = map_option snd (parse_addr s)"

definition To4 :: "ip \<Rightarrow> ip option" where
  "To4 ip =
     (if length ip = 4 then Some ip
      else if length ip = 16 \<and> take 12 ip = v4_in_v6_prefix then Some (drop 12 ip)
      else None)"

section \<open>Networks\<close>

text \<open>\<open>CIDRMask(ones, bits)\<close>, one byte after the other.\<close>

definition mask_byte :: "nat \<Rightarrow> byte" where
  "mask_byte n = (if 8 \<le> n then 255 else NOT (drop_bit n 255))"

definition CIDRMask :: "nat \<Rightarrow> nat \<Rightarrow> byte list" where
  "CIDRMask ones bits = map (\<lambda>i. mask_byte (ones - 8 * i)) [0..<bits div 8]"

text \<open>\<open>IP.Mask\<close>: a 4-byte mask applies to the last four bytes of an IPv4-mapped address.\<close>

definition ip_mask :: "ip \<Rightarrow> byte list \<Rightarrow> ip" where
  "ip_mask ip m =
     (let ip' = (if length m = 4 \<and> length ip = 16 \<and> take 12 ip = v4_in_v6_prefix then drop 12 ip else ip)
      in map2 (AND) ip' m)"

definition ParseCIDR :: "string \<Rightarrow> ipnet option" where
  "ParseCIDR s =
     (case IndexByte s CHR ''/'' of
        None \<Rightarrow> None
      | Some i \<Rightarrow>
          (case (parse_addr (take i s), read_nat (drop (Suc i) s)) of
             (Some (is4, ip), Some n) \<Rightarrow>
               (let bits = (if is4 then 32 else 128) in
                if n \<le> bits then
                  Some \<lparr>net_ip = ip_mask ip (CIDRMask n bits), net_mask = CIDRMask n bits\<rparr>
                else None)
           | _ \<Rightarrow> None))"

text \<open>\<open>IPNet.Contains\<close>, with \<open>networkNumberAndMask\<close>; \<open>None\<close> stands for the nil it returns.\<close>

definition number_and_mask :: "ipnet \<Rightarrow> (ip \<times> byte list) option" where
  "number_and_mask n =
     (let ip = (case To4 (net_ip n) of Some x \<Rightarrow> x | None \<Rightarrow> net_ip n); m = net_mask n in
      if length ip \<noteq> 4 \<and> length ip \<noteq> 16 then None
      else if length m = 4 then (if length ip = 4 then Some (ip, m) else None)
      else if length m = 16 then Some (ip, if length ip = 4 then drop 12 m else m)
      else None)"

definition Contains :: "ipnet \<Rightarrow> ip \<Rightarrow> bool" where
  "Contains n ip =
     (let ip' = (case To4 ip of Some x \<Rightarrow> x | None \<Rightarrow> ip) in
      case number_and_mask n of
        None \<Rightarrow> length ip' = 0
      | Some (nn, m) \<Rightarrow>
          length ip' = length nn \<and> map2 (AND) nn m = map2 (AND) ip' m)"

section \<open>Host and port\<close>

fun LastIndexByte :: "string \<Rightarrow> char \<Rightarrow> nat option" where
  "LastIndexByte s c = map_option (\<lambda>i. length s - Suc i) (IndexByte (rev s) c)"

text \<open>The host of \<open>SplitHostPort\<close>, \<open>None\<close> for its errors.\<close>

definition SplitHostPort :: "string \<Rightarrow> string option" where
  "SplitHostPort hp =
     (case LastIndexByte hp CHR '':'' of
        None \<Rightarrow> None
      | Some i \<Rightarrow>
          if hd hp = CHR ''['' then
            (case IndexByte hp CHR '']'' of
               None \<Rightarrow> None
             | Some e \<Rightarrow>
                 if e + 1 \<noteq> i then None
                 else if CHR ''['' \<in> set (drop 1 hp) \<or> CHR '']'' \<in> set (drop (e + 1) hp) then None
                 else Some (drop 1 (take e hp)))
          else if CHR '':'' \<in> set (take i hp) then None
          else if CHR ''['' \<in> set hp \<or> CHR '']'' \<in> set hp then None
          else Some (take i hp))"

section \<open>Laws\<close>

lemma parse_ipv4_length: "parse_ipv4 s = Some v \<Longrightarrow> length v = 4"
  by (auto simp: parse_ipv4_def split: list.splits option.splits)

lemma ipv6_loop_length:
  "ipv6_loop ip ell s = Some (ip', ell', rest) \<Longrightarrow> even (length ip) \<Longrightarrow> length ip \<le> 16 \<Longrightarrow>
     (\<forall>e \<in> set_option ell. e \<le> length ip) \<Longrightarrow>
     length ip' \<le> 16 \<and> (\<forall>e \<in> set_option ell'. e \<le> length ip')"
proof (induction ip ell s rule: ipv6_loop.induct)
  case (1 ip ell s)
  obtain acc off r where hg: "hex_group s 0 0 = (acc, off, r)" by (cases "hex_group s 0 0") auto
  show ?case
  proof (cases "16 \<le> length ip")
    case True
    with 1 show ?thesis by (simp add: ipv6_loop.simps [of ip ell s])
  next
    case False
    with "1.prems" have room: "length ip + 2 \<le> 16" by presburger
    from "1.prems"(4) have grown: "\<forall>e \<in> set_option ell. e \<le> Suc (Suc (length ip))" by auto
    note IH1 = "1.IH"(1) [OF False hg [symmetric] refl _ _ refl]
    note IH2 = "1.IH"(2) [OF False hg [symmetric] refl _ _ refl]
    from "1.prems"(1) show ?thesis
      unfolding ipv6_loop.simps [of ip ell s] hg
      using False room "1.prems"(2-4) grown IH1 IH2
      by (cases r) (auto simp: Let_def dest!: parse_ipv4_length split: if_splits)
  qed
qed

lemma parse_ipv6_length: "parse_ipv6 s = Some v \<Longrightarrow> length v = 16"
  using ipv6_loop_length [of "[]"]
  by (fastforce simp: parse_ipv6_def Let_def split: if_splits option.splits prod.splits)

lemma parse_addr_length: "parse_addr s = Some (b, ip) \<Longrightarrow> length ip = 16"
  by (auto simp: parse_addr_def v4_in_v6_prefix_def dest: parse_ipv4_length parse_ipv6_length
      split: option.splits if_splits)

lemma parse_addr_v4: "parse_addr s = Some (True, ip) \<Longrightarrow> \<exists>v. ip = v4_in_v6_prefix @ v \<and> length v = 4"
  by (auto simp: parse_addr_def dest: parse_ipv4_length split: option.splits if_splits)

lemma and_255 [simp]: "(x :: byte) AND 255 = x"
proof -
  have "(255 :: byte) = - 1" by simp
  then show ?thesis by (metis and.right_neutral)
qed

lemma CIDRMask_full:
  "CIDRMask 32 32 = replicate 4 255" "CIDRMask 128 128 = replicate 16 255"
  by code_simp+

lemma map2_and_255: "length xs = n \<Longrightarrow> map2 (AND) xs (replicate n (255 :: byte)) = xs"
  by (induction xs arbitrary: n) auto

lemma take_prefix [simp]: "take 12 (v4_in_v6_prefix @ v) = v4_in_v6_prefix"
  "drop 12 (v4_in_v6_prefix @ v) = v" "length v4_in_v6_prefix = 12"
  by (simp_all add: v4_in_v6_prefix_def)

lemma To4_16: "length x = 16 \<Longrightarrow> To4 x = Some v \<longleftrightarrow> x = v4_in_v6_prefix @ v"
  by (auto simp: To4_def) (metis append_take_drop_id)

text \<open>A network of one address: nothing else is contained in it.\<close>

lemma same_bytes:
  "length xs = n \<Longrightarrow> length ys = n \<Longrightarrow>
     map2 (AND) xs (replicate n (255 :: byte)) = map2 (AND) ys (replicate n 255) \<longleftrightarrow> xs = ys"
  by (simp add: map2_and_255)

lemma Contains_host4:
  assumes "length v = 4" and "length x = 16"
  shows "Contains \<lparr>net_ip = v, net_mask = replicate 4 255\<rparr> x \<longleftrightarrow> x = v4_in_v6_prefix @ v"
proof -
  have nm: "number_and_mask \<lparr>net_ip = v, net_mask = replicate 4 255\<rparr> = Some (v, replicate 4 255)"
    using assms(1) by (simp add: number_and_mask_def To4_def)
  show ?thesis
  proof (cases "To4 x")
    case None
    then have "x \<noteq> v4_in_v6_prefix @ v" using To4_16 [OF assms(2), of v] by auto
    with None assms show ?thesis by (simp add: Contains_def nm)
  next
    case (Some y)
    then have x: "x = v4_in_v6_prefix @ y" using To4_16 [OF assms(2)] by simp
    with assms(2) have "length y = 4" by simp
    with Some assms(1) have "Contains \<lparr>net_ip = v, net_mask = replicate 4 255\<rparr> x \<longleftrightarrow> v = y"
      using same_bytes [of v 4 y] by (simp add: Contains_def nm)
    with x show ?thesis by auto
  qed
qed

lemma Contains_host6:
  assumes "length v = 16" and "To4 v = None" and "length x = 16"
  shows "Contains \<lparr>net_ip = v, net_mask = replicate 16 255\<rparr> x \<longleftrightarrow> x = v"
proof -
  have nm: "number_and_mask \<lparr>net_ip = v, net_mask = replicate 16 255\<rparr> = Some (v, replicate 16 255)"
    using assms by (simp add: number_and_mask_def)
  show ?thesis
  proof (cases "To4 x")
    case None
    then show ?thesis
      using same_bytes [of v 16 x] assms(1,3) by (auto simp: Contains_def nm)
  next
    case (Some y)
    then have "length y = 4" using To4_16 [OF assms(3)] assms(3) by auto
    with Some assms show ?thesis by (auto simp: Contains_def nm)
  qed
qed

lemma ParseCIDR_append:
  assumes "CHR ''/'' \<notin> set s" and "parse_addr s = Some (is4, ip)" and "read_nat d = Some n"
    and "n \<le> (if is4 then 32 else 128)"
  shows "ParseCIDR (s @ CHR ''/'' # d) =
    Some \<lparr>net_ip = ip_mask ip (CIDRMask n (if is4 then 32 else 128)),
          net_mask = CIDRMask n (if is4 then 32 else 128)\<rparr>"
  using assms by (simp add: ParseCIDR_def IndexByte_append)

end
