(* ===== verification/Config.thy ===== *)
theory Config
  imports GoNet
begin

text \<open>
  \<open>internal/config/config.go\<close>: the configuration records and \<open>LoadConfig\<close>.  The environment is
  the function \<open>env\<close> (\<open>os.Getenv\<close>: an unset variable reads as the empty string) and
  \<open>readFile\<close> stands for \<open>os.ReadFile\<close>, with \<open>None\<close> for an error.  \<open>LoadConfig\<close> is \<open>None\<close>
  where the program stops with \<open>log.Fatal\<close>.
\<close>

record oauth_config =
  ClientID :: string
  ClientSecret :: string
  RedirectURL :: string
  Scopes :: "string list"
  AuthURL :: string
  TokenURL :: string
  OIDCWellKnownURL :: string
  Issuer :: string
  UsernameClaim :: string
  SessionMaxAge :: int

record config =
  ClusterName :: string
  ContextRoot :: string
  ListenerPort :: string
  AuthEnabled :: bool
  OAuthConfig :: oauth_config
  TrustedProxies :: "ipnet list"
  SensitiveDataPaths :: "string list"
  HideAllConfigs :: bool
  HideAllEnvs :: bool
  HideAllMounts :: bool
  HideAllSecrets :: bool
  HideLabels :: "string list"
  MaxWSConnections :: int

definition defaultContextRoot :: string where
  "defaultContextRoot = ''/''"

definition defaultListenerPort :: string where
  "defaultListenerPort = ''8080''"

definition defaultSessionMaxAge :: int where
  "defaultSessionMaxAge = 3600"

definition defaultMaxWSConnections :: int where
  "defaultMaxWSConnections = 256"

section \<open>Operations\<close>

definition getEnv :: "(string \<Rightarrow> string) \<Rightarrow> string \<Rightarrow> string \<Rightarrow> string" where
  "getEnv env key defaultValue = (if env key = [] then defaultValue else env key)"

text \<open>The loop of \<open>splitList\<close> over the comma-separated items.\<close>

fun splitList_loop :: "string list \<Rightarrow> string list \<Rightarrow> string list" where
  "splitList_loop out [] = out"
| "splitList_loop out (item # items) =
     (if TrimSpace item \<noteq> [] then splitList_loop (out @ [TrimSpace item]) items
      else splitList_loop out items)"

definition splitList :: "string \<Rightarrow> string list" where
  "splitList value = splitList_loop [] (Split CHR '','' value)"

definition loadContextRoot :: "(string \<Rightarrow> string) \<Rightarrow> string" where
  "loadContextRoot env =
     (let contextRoot = getEnv env ''CONTEXT_ROOT'' defaultContextRoot
      in if \<not> HasSuffix contextRoot ''/'' then contextRoot @ ''/'' else contextRoot)"

definition loadClientSecret :: "(string \<Rightarrow> string) \<Rightarrow> (string \<Rightarrow> string option) \<Rightarrow> string option" where
  "loadClientSecret env readFile =
     (let clientSecretFile = env ''OIDC_CLIENT_SECRET_FILE''
      in if clientSecretFile \<noteq> [] then readFile clientSecretFile else Some [])"

definition builtinSensitivePaths :: "string list" where
  "builtinSensitivePaths =
     [''nodes.*.Description.Engine.Plugins'',
      ''nodes.*.Description.TLSInfo'',
      ''services.*.Spec.TaskTemplate.Placement.Platforms'',
      ''services.*.Spec.TaskTemplate.ContainerSpec.Mounts.*.Source'',
      ''tasks.*.Spec.Placement.Platforms'',
      ''tasks.*.Spec.ContainerSpec.Mounts.*.Source'']"

text \<open>A number that must be positive; anything else keeps the default (with a warning).\<close>

definition positiveSetting :: "(string \<Rightarrow> string) \<Rightarrow> string \<Rightarrow> int \<Rightarrow> int" where
  "positiveSetting env key defaultValue =
     (let s = env key
      in if s \<noteq> [] then
           (case Atoi s of
              Some v \<Rightarrow> if 0 < v then v else defaultValue
            | None \<Rightarrow> defaultValue)
         else defaultValue)"

text \<open>One entry of \<open>TRUSTED_PROXIES\<close>: \<open>None\<close> where the loop warns and skips it.\<close>

definition proxyEntry :: "string \<Rightarrow> ipnet option" where
  "proxyEntry raw =
     (let entry = TrimSpace raw
      in if CHR ''/'' \<notin> set entry then
           (case ParseIP entry of
              None \<Rightarrow> None
            | Some ip \<Rightarrow>
                (case To4 ip of
                   Some x \<Rightarrow> ParseCIDR (entry @ ''/32'')
                 | None \<Rightarrow> ParseCIDR (entry @ ''/128'')))
         else ParseCIDR entry)"

definition loadTrustedProxies :: "(string \<Rightarrow> string) \<Rightarrow> ipnet list" where
  "loadTrustedProxies env =
     (let tp = env ''TRUSTED_PROXIES''
      in if tp \<noteq> [] then List.map_filter proxyEntry (Split CHR '','' tp) else [])"

definition LoadConfig :: "(string \<Rightarrow> string) \<Rightarrow> (string \<Rightarrow> string option) \<Rightarrow> config option" where
  "LoadConfig env readFile =
     (case loadClientSecret env readFile of
        None \<Rightarrow> None
      | Some clientSecret \<Rightarrow>
          Some \<lparr>ClusterName = env ''CLUSTER_NAME'',
                ContextRoot = loadContextRoot env,
                ListenerPort = getEnv env ''LISTENER_PORT'' defaultListenerPort,
                AuthEnabled = (env ''ENABLE_AUTHN'' = ''true''),
                OAuthConfig =
                  \<lparr>ClientID = env ''OIDC_CLIENT_ID'',
                   ClientSecret = TrimSpace clientSecret,
                   RedirectURL = env ''OIDC_REDIRECT_URL'',
                   Scopes = splitList (env ''OIDC_SCOPES''),
                   AuthURL = env ''OIDC_AUTH_URL'',
                   TokenURL = env ''OIDC_TOKEN_URL'',
                   OIDCWellKnownURL = env ''OIDC_WELL_KNOWN_URL'',
                   Issuer = [],
                   UsernameClaim = getEnv env ''OIDC_USERNAME_CLAIM'' ''preferred_username'',
                   SessionMaxAge = positiveSetting env ''OIDC_SESSION_MAX_AGE'' defaultSessionMaxAge\<rparr>,
                TrustedProxies = loadTrustedProxies env,
                SensitiveDataPaths = builtinSensitivePaths @ splitList (env ''SENSITIVE_DATA_PATHS''),
                HideAllConfigs = (env ''HIDE_ALL_CONFIGS'' = ''true''),
                HideAllEnvs = (env ''HIDE_ALL_ENVS'' = ''true''),
                HideAllMounts = (env ''HIDE_ALL_MOUNTS'' = ''true''),
                HideAllSecrets = (env ''HIDE_ALL_SECRETS'' = ''true''),
                HideLabels = splitList (env ''HIDE_LABELS''),
                MaxWSConnections = positiveSetting env ''MAX_WS_CONNECTIONS'' defaultMaxWSConnections\<rparr>)"

section \<open>Laws\<close>

lemma splitList_loop_eq:
  "splitList_loop out items = out @ filter (\<lambda>w. w \<noteq> []) (map TrimSpace items)"
  by (induction out items rule: splitList_loop.induct) auto

lemma splitList_eq: "splitList s = filter (\<lambda>w. w \<noteq> []) (map TrimSpace (Split CHR '','' s))"
  by (simp add: splitList_def splitList_loop_eq)

text \<open>
  \<open>splitList\<close> returns the trimmed, non-empty items of a comma-separated value in their order:
  every item is non-empty, has no surrounding white space, and a list of such items without commas
  survives being joined by commas and split again.
\<close>

theorem splitList_correct:
  "(\<forall>w \<in> set (splitList s). w \<noteq> [] \<and> TrimSpace w = w) \<and>
   (ws \<noteq> [] \<and> (\<forall>w \<in> set ws. w \<noteq> [] \<and> TrimSpace w = w \<and> CHR '','' \<notin> set w) \<longrightarrow>
      splitList (Join CHR '','' ws) = ws)"
proof (intro conjI impI)
  show "\<forall>w \<in> set (splitList s). w \<noteq> [] \<and> TrimSpace w = w"
    by (auto simp: splitList_eq TrimSpace_idem)
next
  assume ws: "ws \<noteq> [] \<and> (\<forall>w \<in> set ws. w \<noteq> [] \<and> TrimSpace w = w \<and> CHR '','' \<notin> set w)"
  then have "Split CHR '','' (Join CHR '','' ws) = ws" by (intro Split_Join) auto
  moreover from ws have "map TrimSpace ws = ws" by (intro map_idI) auto
  ultimately show "splitList (Join CHR '','' ws) = ws"
    using ws by (auto simp: splitList_eq intro: filter_True)
qed

lemma TrimSpace_plain:
  assumes "space_at space_codes s = None" and "space_at (map rev space_codes) (rev s) = None"
  shows "TrimSpace s = s"
  using assms by (simp add: TrimSpace_def strip_None)

theorem splitList_correct_witness:
  "splitList (Join CHR '','' [''node'', ''service'']) = [''node'', ''service'']"
proof -
  have "TrimSpace ''node'' = ''node''" "TrimSpace ''service'' = ''service''"
    by (rule TrimSpace_plain; code_simp)+
  with splitList_correct [of "[]" "[''node'', ''service'']"] show ?thesis by simp
qed

lemma positiveSetting_pos: "0 < d \<Longrightarrow> 0 < positiveSetting env key d"
  by (auto simp: positiveSetting_def Let_def split: option.splits)

lemma loadContextRoot_slash: "HasSuffix (loadContextRoot env) ''/''"
  by (auto simp: loadContextRoot_def Let_def HasSuffix_iff)

text \<open>
  C36: a configuration that loads is well-formed whatever the environment holds: the context root
  ends in a slash, the session lifetime and the connection cap are positive \<open>int\<close>s, the listener
  port is not empty, and the built-in sensitive paths come first in \<open>SensitiveDataPaths\<close>.
\<close>

theorem LoadConfig_wellformed:
  assumes "LoadConfig env readFile = Some cfg"
  shows "HasSuffix (ContextRoot cfg) ''/'' \<and>
    0 < SessionMaxAge (OAuthConfig cfg) \<and> 0 < MaxWSConnections cfg \<and>
    SessionMaxAge (OAuthConfig cfg) \<le> int_max \<and> MaxWSConnections cfg \<le> int_max \<and>
    ListenerPort cfg \<noteq> [] \<and>
    (\<exists>more. SensitiveDataPaths cfg = builtinSensitivePaths @ more)"
proof -
  have bound: "positiveSetting env key d \<le> int_max" if "d \<le> int_max" for key d
    using that by (auto simp: positiveSetting_def Let_def dest: Atoi_bounds split: option.splits)
  from assms have cfg: "ContextRoot cfg = loadContextRoot env"
    "SessionMaxAge (OAuthConfig cfg) = positiveSetting env ''OIDC_SESSION_MAX_AGE'' defaultSessionMaxAge"
    "MaxWSConnections cfg = positiveSetting env ''MAX_WS_CONNECTIONS'' defaultMaxWSConnections"
    "ListenerPort cfg = getEnv env ''LISTENER_PORT'' defaultListenerPort"
    "SensitiveDataPaths cfg = builtinSensitivePaths @ splitList (env ''SENSITIVE_DATA_PATHS'')"
    by (auto simp: LoadConfig_def split: option.splits)
  have d: "0 < defaultSessionMaxAge" "0 < defaultMaxWSConnections"
    "defaultSessionMaxAge \<le> int_max" "defaultMaxWSConnections \<le> int_max"
    by (simp_all add: defaultSessionMaxAge_def defaultMaxWSConnections_def int_max_def)
  show ?thesis
    unfolding cfg using d
    by (auto simp: loadContextRoot_slash getEnv_def defaultListenerPort_def
        intro: positiveSetting_pos bound)
qed

theorem LoadConfig_wellformed_witness:
  "\<exists>cfg. LoadConfig (\<lambda>_. []) (\<lambda>_. None) = Some cfg \<and> HasSuffix (ContextRoot cfg) ''/'' \<and>
     0 < MaxWSConnections cfg"
proof -
  obtain cfg where cfg: "LoadConfig (\<lambda>_. []) (\<lambda>_. None) = Some cfg"
    by (simp add: LoadConfig_def loadClientSecret_def)
  with LoadConfig_wellformed [OF cfg] show ?thesis by blast
qed

text \<open>
  A plain address in \<open>TRUSTED_PROXIES\<close>, written in dotted form or as an IPv6 address that is
  not IPv4-mapped, becomes a network that contains exactly that address.
\<close>

theorem proxyEntry_plain_exact:
  assumes addr: "parse_addr (TrimSpace raw) = Some (is4, ip)" and noslash: "CHR ''/'' \<notin> set (TrimSpace raw)"
    and form: "is4 \<or> To4 ip = None"
  shows "\<exists>n. proxyEntry raw = Some n \<and> (\<forall>x. length x = 16 \<longrightarrow> (Contains n x \<longleftrightarrow> x = ip))"
proof (cases is4)
  case True
  with addr obtain v where ip: "ip = v4_in_v6_prefix @ v" and v: "length v = 4"
    using parse_addr_v4 [of "TrimSpace raw" ip] by auto
  have "ParseCIDR (TrimSpace raw @ CHR ''/'' # ''32'') = Some \<lparr>net_ip = v, net_mask = replicate 4 255\<rparr>"
    using True addr v map2_and_255 [OF v]
    by (subst ParseCIDR_append [OF noslash addr, of _ 32])
      (simp_all add: ip ip_mask_def CIDRMask_full read_nat_def char_digit_def)
  moreover have "To4 ip = Some v" using v by (simp add: ip To4_def)
  ultimately have "proxyEntry raw = Some \<lparr>net_ip = v, net_mask = replicate 4 255\<rparr>"
    using addr noslash by (simp add: proxyEntry_def ParseIP_def)
  then show ?thesis using Contains_host4 [OF v] ip by auto
next
  case False
  with form have no4: "To4 ip = None" by simp
  from addr have len: "length ip = 16" by (rule parse_addr_length)
  have "ParseCIDR (TrimSpace raw @ CHR ''/'' # ''128'') = Some \<lparr>net_ip = ip, net_mask = replicate 16 255\<rparr>"
    using False addr len map2_and_255 [OF len]
    by (subst ParseCIDR_append [OF noslash addr, of _ 128])
      (simp_all add: ip_mask_def CIDRMask_full read_nat_def char_digit_def)
  then have "proxyEntry raw = Some \<lparr>net_ip = ip, net_mask = replicate 16 255\<rparr>"
    using addr noslash no4 by (simp add: proxyEntry_def ParseIP_def)
  then show ?thesis using Contains_host6 [OF len no4] by auto
qed

theorem proxyEntry_plain_exact_witness:
  "\<exists>n. proxyEntry '' 10.0.0.1 '' = Some n \<and>
     (\<forall>x. length x = 16 \<longrightarrow> (Contains n x \<longleftrightarrow> x = v4_in_v6_prefix @ [10, 0, 0, 1]))"
proof (rule proxyEntry_plain_exact)
  show "parse_addr (TrimSpace '' 10.0.0.1 '') = Some (True, v4_in_v6_prefix @ [10, 0, 0, 1])"
    by code_simp
  show "CHR ''/'' \<notin> set (TrimSpace '' 10.0.0.1 '')" by code_simp
qed simp


text \<open>The configuration of an empty environment, for concrete runs.\<close>

definition example_config :: config where
  "example_config =
     \<lparr>ClusterName = [], ContextRoot = ''/'', ListenerPort = ''8080'', AuthEnabled = False,
      OAuthConfig =
        \<lparr>ClientID = [], ClientSecret = [], RedirectURL = [], Scopes = [], AuthURL = [], TokenURL = [],
         OIDCWellKnownURL = [], Issuer = [], UsernameClaim = ''preferred_username'',
         SessionMaxAge = 3600\<rparr>,
      TrustedProxies = [], SensitiveDataPaths = builtinSensitivePaths, HideAllConfigs = False,
      HideAllEnvs = False, HideAllMounts = False, HideAllSecrets = False, HideLabels = [],
      MaxWSConnections = 256\<rparr>"

end
