(* ===== verification/Sanitize.thy ===== *)
theory Sanitize
  imports Config
begin

text \<open>
  The sanitizers of \<open>internal/docker/inspect.go\<close> and the fetchers that call them.  The types of the
  Docker API are records of the fields that the program reads or writes; what it only passes on is
  opaque, of the type \<open>'o\<close>.  A Go slice or map that may be nil is an option, and the pointer
  \<open>Spec.TaskTemplate.ContainerSpec\<close> is an option whose \<open>None\<close> the code dereferences at its peril.
\<close>

section \<open>The data of the Docker API\<close>

type_synonym labels = "(string \<rightharpoonup> string) option"

record 'o container_spec =
  cs_Labels :: labels
  cs_Env :: "string list option"
  cs_Mounts :: "'o list option"
  cs_Configs :: "'o list option"
  cs_Secrets :: "'o list option"
  cs_rest :: 'o

record 'o task_spec =
  ContainerSpec :: "'o container_spec option"
  ts_rest :: 'o

record 'o service_spec =
  sp_Labels :: labels
  TaskTemplate :: "'o task_spec"
  sp_rest :: 'o

record 'o service =
  sv_ID :: string
  sv_Spec :: "'o service_spec"
  sv_rest :: 'o

record 'o node =
  nd_ID :: string
  nd_Labels :: labels
  nd_rest :: 'o

record 'o summary =
  nw_Name :: string
  nw_Labels :: labels
  nw_rest :: 'o

datatype task_state = StateRunning | StateAccepted | StateFailed | StateComplete | OtherState string

text \<open>Points in time are nanoseconds.\<close>

record 'o task =
  ID :: string
  ServiceID :: string
  NodeID :: string
  Slot :: int
  CreatedAt :: int
  UpdatedAt :: int
  State :: task_state
  DesiredState :: task_state
  tk_Spec :: "'o task_spec"
  tk_rest :: 'o

section \<open>Operations\<close>

definition hidesLabels :: "config \<Rightarrow> string \<Rightarrow> bool" where
  "hidesLabels c kind \<longleftrightarrow> ''all'' \<in> set (HideLabels c) \<or> kind \<in> set (HideLabels c)"

definition sanitized :: string where
  "sanitized = ''(sanitized)''"

definition hide_envs_key :: string where
  "hide_envs_key = ''io.github.jtgasper3.visualizer.hide-envs''"

definition hide_labels_key :: string where
  "hide_labels_key = ''io.github.jtgasper3.visualizer.hide-labels''"

text \<open>A write through the \<open>ContainerSpec\<close> pointer; a nil pointer panics.\<close>

definition on_spec :: "('o container_spec \<Rightarrow> 'o container_spec) \<Rightarrow> 'o task_spec \<Rightarrow> 'o task_spec go" where
  "on_spec f ts =
     (case ContainerSpec ts of
        None \<Rightarrow> Inl NilDereference
      | Some cs \<Rightarrow> Inr (ts\<lparr>ContainerSpec := Some (f cs)\<rparr>))"

definition when_spec ::
  "bool \<Rightarrow> ('o container_spec \<Rightarrow> 'o container_spec) \<Rightarrow> 'o task_spec \<Rightarrow> 'o task_spec go" where
  "when_spec b f ts = (if b then on_spec f ts else Inr ts)"

text \<open>The loops over a \<open>hide-envs\<close> list, over the environment, and over a \<open>hide-labels\<close> list.\<close>

fun hide_set :: "string list \<Rightarrow> string set \<Rightarrow> string set" where
  "hide_set [] hs = hs"
| "hide_set (e # es) hs = hide_set es (if TrimSpace e \<noteq> [] then insert (TrimSpace e) hs else hs)"

definition hide_env :: "string set \<Rightarrow> string \<Rightarrow> string" where
  "hide_env hs env =
     (case IndexByte env CHR ''='' of
        Some eq \<Rightarrow>
          if 0 < eq then
            (if take eq env \<in> hs then take eq env @ ''='' @ sanitized else env)
          else (if env \<in> hs then env @ ''='' @ sanitized else env)
      | None \<Rightarrow> if env \<in> hs then env @ ''='' @ sanitized else env)"

fun hide_labels :: "string list \<Rightarrow> (string \<rightharpoonup> string) \<Rightarrow> (string \<rightharpoonup> string)" where
  "hide_labels [] m = m"
| "hide_labels (l # ls) m =
     (if TrimSpace l = [] then hide_labels ls m
      else if m (TrimSpace l) \<noteq> None then hide_labels ls (m(TrimSpace l \<mapsto> sanitized))
      else hide_labels ls m)"

definition hide_labels_of :: "(string \<rightharpoonup> string) \<Rightarrow> (string \<rightharpoonup> string)" where
  "hide_labels_of m =
     (case m hide_labels_key of
        None \<Rightarrow> m
      | Some raw \<Rightarrow> hide_labels (Split CHR '','' raw) m)"

definition hide_service_envs :: "(string \<rightharpoonup> string) \<Rightarrow> 'o task_spec \<Rightarrow> 'o task_spec go" where
  "hide_service_envs m ts =
     (case m hide_envs_key of
        None \<Rightarrow> Inr ts
      | Some raw \<Rightarrow>
          on_spec (\<lambda>cs. cs\<lparr>cs_Env := map_option (map (hide_env (hide_set (Split CHR '','' raw) {}))) (cs_Env cs)\<rparr>) ts)"

text \<open>The five conditional writes that \<open>sanitizeServices\<close> and \<open>sanitizeTasks\<close> share.\<close>

definition hide_flags :: "config \<Rightarrow> 'o task_spec \<Rightarrow> 'o task_spec go" where
  "hide_flags c ts =
     go_bind (when_spec (HideAllConfigs c) (cs_Configs_update (\<lambda>_. None)) ts) (\<lambda>ts.
     go_bind (when_spec (HideAllEnvs c) (cs_Env_update (\<lambda>_. None)) ts) (\<lambda>ts.
     go_bind (when_spec (HideAllMounts c) (cs_Mounts_update (\<lambda>_. None)) ts) (\<lambda>ts.
     go_bind (when_spec (HideAllSecrets c) (cs_Secrets_update (\<lambda>_. None)) ts) (\<lambda>ts.
     when_spec (hidesLabels c ''container'') (cs_Labels_update (\<lambda>_. None)) ts))))"

definition sanitizeService :: "config \<Rightarrow> 'o service \<Rightarrow> 'o service go" where
  "sanitizeService c svc =
     (let spec = sv_Spec svc;
          labels = (if hidesLabels c ''service'' then None else sp_Labels spec) in
      go_bind (hide_flags c (TaskTemplate spec)) (\<lambda>ts.
      go_bind (case labels of None \<Rightarrow> Inr ts | Some m \<Rightarrow> hide_service_envs m ts) (\<lambda>ts.
      let labels = map_option hide_labels_of labels in
      go_bind (on_spec (\<lambda>cs. cs\<lparr>cs_Labels := map_option hide_labels_of (cs_Labels cs)\<rparr>) ts) (\<lambda>ts.
      Inr (svc\<lparr>sv_Spec := spec\<lparr>sp_Labels := labels, TaskTemplate := ts\<rparr>\<rparr>)))))"

definition sanitizeServices :: "config \<Rightarrow> 'o service list \<Rightarrow> 'o service list go" where
  "sanitizeServices c services = traverse (sanitizeService c) services"

definition sanitizeTasks :: "config \<Rightarrow> 'o task list \<Rightarrow> 'o task list go" where
  "sanitizeTasks c tasks =
     traverse (\<lambda>t. go_map (\<lambda>ts. t\<lparr>tk_Spec := ts\<rparr>) (hide_flags c (tk_Spec t))) tasks"

definition sanitizeNodes :: "config \<Rightarrow> 'o node list \<Rightarrow> 'o node list" where
  "sanitizeNodes c nodes =
     map (\<lambda>n. if hidesLabels c ''node'' then n\<lparr>nd_Labels := None\<rparr> else n) nodes"

text \<open>
  The fetchers.  The argument is what the Docker client answers, \<open>None\<close> for an error; the loop of
  \<open>getNetworksInfo\<close> appends to the filtered list.
\<close>

fun filter_networks :: "config \<Rightarrow> 'o summary list \<Rightarrow> 'o summary list \<Rightarrow> 'o summary list" where
  "filter_networks c [] filtered = filtered"
| "filter_networks c (net # nets) filtered =
     (let net = (if hidesLabels c ''network'' then net\<lparr>nw_Labels := None\<rparr> else net)
      in if nw_Name net \<noteq> ''ingress'' then filter_networks c nets (filtered @ [net])
         else filter_networks c nets filtered)"

definition getNetworksInfo :: "config \<Rightarrow> 'o summary list option \<Rightarrow> 'o summary list option" where
  "getNetworksInfo c answer = map_option (\<lambda>nets. filter_networks c nets []) answer"

definition getNodesInfo :: "config \<Rightarrow> 'o node list option \<Rightarrow> 'o node list option" where
  "getNodesInfo c answer = map_option (sanitizeNodes c) answer"

definition getServicesInfo :: "config \<Rightarrow> 'o service list option \<Rightarrow> 'o service list option go" where
  "getServicesInfo c answer =
     (case answer of
        None \<Rightarrow> Inr None
      | Some services \<Rightarrow> go_map Some (sanitizeServices c services))"

section \<open>The redaction policy\<close>

text \<open>
  What the sanitizers are to achieve, without their loops and their order of writes: the names
  listed in a label, the name of an environment entry, and the redacted forms.
\<close>

definition listed :: "string \<Rightarrow> string set" where
  "listed raw = {TrimSpace w |w. w \<in> set (Split CHR '','' raw) \<and> TrimSpace w \<noteq> []}"

definition env_name :: "string \<Rightarrow> string" where
  "env_name env =
     (case IndexByte env CHR ''='' of Some (Suc n) \<Rightarrow> take (Suc n) env | _ \<Rightarrow> env)"

definition redact_env :: "string set \<Rightarrow> string \<Rightarrow> string" where
  "redact_env names env = (if env_name env \<in> names then env_name env @ ''='' @ sanitized else env)"

definition redact_labels :: "(string \<rightharpoonup> string) \<Rightarrow> (string \<rightharpoonup> string)" where
  "redact_labels m =
     (case m hide_labels_key of
        None \<Rightarrow> m
      | Some raw \<Rightarrow> (\<lambda>k. if k \<in> listed raw \<and> m k \<noteq> None then Some sanitized else m k))"

definition redact_flags :: "config \<Rightarrow> 'o container_spec \<Rightarrow> 'o container_spec" where
  "redact_flags c cs =
     \<lparr>cs_Labels = (if hidesLabels c ''container'' then None else cs_Labels cs),
      cs_Env = (if HideAllEnvs c then None else cs_Env cs),
      cs_Mounts = (if HideAllMounts c then None else cs_Mounts cs),
      cs_Configs = (if HideAllConfigs c then None else cs_Configs cs),
      cs_Secrets = (if HideAllSecrets c then None else cs_Secrets cs),
      cs_rest = cs_rest cs\<rparr>"

text \<open>The names of the variables that a service asks to hide.\<close>

definition hidden_envs :: "config \<Rightarrow> labels \<Rightarrow> string set" where
  "hidden_envs c ls =
     (if hidesLabels c ''service'' then {}
      else (case Option.bind ls (\<lambda>m. m hide_envs_key) of None \<Rightarrow> {} | Some raw \<Rightarrow> listed raw))"

definition redact_container :: "config \<Rightarrow> labels \<Rightarrow> 'o container_spec \<Rightarrow> 'o container_spec" where
  "redact_container c ls cs =
     (redact_flags c cs)\<lparr>
       cs_Env := map_option (map (redact_env (hidden_envs c ls))) (cs_Env (redact_flags c cs)),
       cs_Labels := map_option redact_labels (cs_Labels (redact_flags c cs))\<rparr>"

definition redact_service :: "config \<Rightarrow> 'o service \<Rightarrow> 'o service" where
  "redact_service c svc =
     svc\<lparr>sv_Spec := (sv_Spec svc)\<lparr>
       sp_Labels := (if hidesLabels c ''service'' then None
                     else map_option redact_labels (sp_Labels (sv_Spec svc))),
       TaskTemplate := (TaskTemplate (sv_Spec svc))\<lparr>
         ContainerSpec := map_option (redact_container c (sp_Labels (sv_Spec svc)))
           (ContainerSpec (TaskTemplate (sv_Spec svc)))\<rparr>\<rparr>\<rparr>"

section \<open>Laws\<close>

lemma on_spec_simps [simp]:
  "ContainerSpec ts = None \<Longrightarrow> on_spec f ts = Inl NilDereference"
  "ContainerSpec ts = Some cs \<Longrightarrow> on_spec f ts = Inr (ts\<lparr>ContainerSpec := Some (f cs)\<rparr>)"
  by (simp_all add: on_spec_def)

lemma when_spec_some:
  "ContainerSpec ts = Some cs \<Longrightarrow>
   when_spec b f ts = Inr (ts\<lparr>ContainerSpec := Some (if b then f cs else cs)\<rparr>)"
  by (simp add: when_spec_def)

lemma hide_set_eq: "hide_set es hs = hs \<union> {TrimSpace w |w. w \<in> set es \<and> TrimSpace w \<noteq> []}"
  by (induction es hs rule: hide_set.induct) auto

lemma hide_set_listed: "hide_set (Split CHR '','' raw) {} = listed raw"
  by (simp add: hide_set_eq listed_def)

lemma hide_env_eq: "hide_env hs env = redact_env hs env"
  by (auto simp: hide_env_def redact_env_def env_name_def split: option.split nat.split)

lemma hide_labels_eq:
  "hide_labels ls m k =
     (if (\<exists>w \<in> set ls. k = TrimSpace w \<and> TrimSpace w \<noteq> []) \<and> m k \<noteq> None then Some sanitized else m k)"
proof (induction ls arbitrary: m)
  case Nil
  then show ?case by simp
next
  case (Cons l ls)
  show ?case by (auto simp: Cons.IH)
qed

lemma hide_labels_of_eq: "hide_labels_of m = redact_labels m"
  by (auto simp: hide_labels_of_def redact_labels_def hide_labels_eq listed_def fun_eq_iff split: option.split)

lemma hide_flags_some:
  "ContainerSpec ts = Some cs \<Longrightarrow>
   hide_flags c ts = Inr (ts\<lparr>ContainerSpec := Some (redact_flags c cs)\<rparr>)"
  by (cases cs) (simp add: hide_flags_def when_spec_some redact_flags_def)

lemma hide_flags_none:
  "ContainerSpec ts = None \<Longrightarrow>
   hide_flags c ts =
     (if HideAllConfigs c \<or> HideAllEnvs c \<or> HideAllMounts c \<or> HideAllSecrets c \<or> hidesLabels c ''container''
      then Inl NilDereference else Inr ts)"
  by (simp add: hide_flags_def when_spec_def)

lemma redact_env_none: "redact_env {} = (\<lambda>e. e)"
  by (simp add: redact_env_def fun_eq_iff)

lemma sanitizeService_eq:
  "sanitizeService c svc =
     (case ContainerSpec (TaskTemplate (sv_Spec svc)) of
        None \<Rightarrow> Inl NilDereference
      | Some cs \<Rightarrow> Inr (redact_service c svc))"
proof (cases "ContainerSpec (TaskTemplate (sv_Spec svc))")
  case None
  then show ?thesis
    by (auto simp: sanitizeService_def Let_def hide_flags_none hide_service_envs_def split: option.split)
next
  case (Some cs)
  have env: "(case if hidesLabels c ''service'' then None else sp_Labels (sv_Spec svc) of
        None \<Rightarrow> Inr ts | Some m \<Rightarrow> hide_service_envs m ts) =
      Inr (ts\<lparr>ContainerSpec := Some (cs'\<lparr>cs_Env :=
        map_option (map (redact_env (hidden_envs c (sp_Labels (sv_Spec svc))))) (cs_Env cs')\<rparr>)\<rparr>)"
    if "ContainerSpec ts = Some cs'" for ts and cs' :: "'a container_spec"
    using that
    by (auto simp: hide_service_envs_def hidden_envs_def hide_set_listed hide_env_eq [abs_def]
        redact_env_none option.map_id0 [unfolded id_def] split: option.split)
  from Some show ?thesis
    by (simp add: sanitizeService_def Let_def hide_flags_some env redact_service_def redact_container_def
        hide_labels_of_eq [abs_def] option.map_comp)
qed


lemma filter_networks_eq:
  "filter_networks c nets filtered = filtered @
     map (\<lambda>n. if hidesLabels c ''network'' then n\<lparr>nw_Labels := None\<rparr> else n)
       (filter (\<lambda>n. nw_Name n \<noteq> ''ingress'') nets)"
  by (induction c nets filtered rule: filter_networks.induct) (auto simp: Let_def)

lemma traverse_case:
  assumes "\<And>x. f x = (if P x then Inr (g x) else Inl p)"
  shows "traverse f xs = (if \<forall>x \<in> set xs. P x then Inr (map g xs) else Inl p)"
  by (induction xs) (simp_all add: assms)

lemma redact_env_reveals:
  assumes K: "CHR ''='' \<notin> set K" "K \<noteq> []" "K \<in> names" and e: "redact_env names env = K @ ''='' @ v"
  shows "v = sanitized"
proof (cases "env_name env \<in> names")
  case True
  with e have eq: "env_name env @ ''='' @ sanitized = K @ ''='' @ v" by (simp add: redact_env_def)
  show ?thesis
  proof (cases "CHR ''='' \<in> set (env_name env)")
    case False
    have "IndexByte (env_name env @ ''='' @ sanitized) CHR ''='' = Some (length (env_name env))"
      using IndexByte_append [OF False] by simp
    moreover have "IndexByte (K @ ''='' @ v) CHR ''='' = Some (length K)"
      using IndexByte_append [OF K(1)] by simp
    ultimately have "length (env_name env) = length K" unfolding eq by simp
    with eq show ?thesis by simp
  next
    case True
    then have "IndexByte env CHR ''='' = Some 0"
      by (auto simp: env_name_def IndexByte_None split: option.splits nat.splits dest!: IndexByte_Some)
    then have "env_name env = env" "hd env = CHR ''=''" "env \<noteq> []"
      by (auto simp: env_name_def hd_conv_nth dest!: IndexByte_Some)
    with eq K(1,2) show ?thesis by (cases K; cases env) auto
  qed
next
  case False
  with e have "env = K @ ''='' @ v" by (simp add: redact_env_def)
  then have "env_name env = K"
    using IndexByte_append [OF K(1), of v] K(2) by (cases "length K") (auto simp: env_name_def)
  with False K(3) show ?thesis by simp
qed

section \<open>Properties\<close>

text \<open>
  C18: \<open>sanitizeServices\<close> refines the redaction policy: on services that all run a container it
  returns exactly the redacted services, in order, whatever flags and labels are set; a service
  without a \<open>ContainerSpec\<close> makes it panic, whatever the configuration.
\<close>

theorem sanitizeServices_refines:
  "sanitizeServices c services =
     (if \<forall>s \<in> set services. ContainerSpec (TaskTemplate (sv_Spec s)) \<noteq> None
      then Inr (map (redact_service c) services) else Inl NilDereference)"
  unfolding sanitizeServices_def
  by (rule traverse_case) (simp add: sanitizeService_eq split: option.split)

definition demo_service :: "labels \<Rightarrow> string list \<Rightarrow> unit service" where
  "demo_service ls envs =
     \<lparr>sv_ID = ''s1'',
      sv_Spec = \<lparr>sp_Labels = ls,
        TaskTemplate = \<lparr>ContainerSpec = Some \<lparr>cs_Labels = None, cs_Env = Some envs, cs_Mounts = None,
          cs_Configs = None, cs_Secrets = None, cs_rest = ()\<rparr>, ts_rest = ()\<rparr>, sp_rest = ()\<rparr>,
      sv_rest = ()\<rparr>"

theorem sanitizeServices_refines_witness:
  "sanitizeServices example_config [demo_service None [''A=1'']] =
   Inr [redact_service example_config (demo_service None [''A=1''])]"
  using sanitizeServices_refines [of example_config "[demo_service None [''A=1'']]"]
  by (simp add: demo_service_def)

text \<open>
  The \<open>HIDE_ALL\<close> switches and \<open>HIDE_LABELS\<close> take effect on every service that is returned, on
  top of whatever the services' own labels ask for: configs, environment, mounts, secrets, service
  labels and container labels are nil where their switch is on.
\<close>

theorem sanitizeServices_switches:
  assumes "sanitizeServices c services = Inr out" and "i < length services"
  shows "length out = length services \<and> sv_ID (out ! i) = sv_ID (services ! i) \<and>
    (\<exists>cs. ContainerSpec (TaskTemplate (sv_Spec (out ! i))) = Some cs \<and>
       (HideAllConfigs c \<longrightarrow> cs_Configs cs = None) \<and> (HideAllEnvs c \<longrightarrow> cs_Env cs = None) \<and>
       (HideAllMounts c \<longrightarrow> cs_Mounts cs = None) \<and> (HideAllSecrets c \<longrightarrow> cs_Secrets cs = None) \<and>
       (hidesLabels c ''container'' \<longrightarrow> cs_Labels cs = None)) \<and>
    (hidesLabels c ''service'' \<longrightarrow> sp_Labels (sv_Spec (out ! i)) = None)"
proof -
  have step: "sanitizeService c (services ! i) = Inr (out ! i)" "length out = length services"
    using traverse_nth [OF assms(1) [unfolded sanitizeServices_def] assms(2)]
      traverse_length [OF assms(1) [unfolded sanitizeServices_def]] by blast+
  then obtain cs where "ContainerSpec (TaskTemplate (sv_Spec (services ! i))) = Some cs"
    and "out ! i = redact_service c (services ! i)"
    by (auto simp: sanitizeService_eq split: option.splits)
  with step(2) show ?thesis
    by (simp add: redact_service_def redact_container_def redact_flags_def)
qed

theorem sanitizeServices_switches_witness:
  "\<exists>out. sanitizeServices (example_config\<lparr>HideAllEnvs := True\<rparr>) [demo_service None [''A=1'']] = Inr out \<and>
     length out = 1 \<and>
     (\<exists>cs. ContainerSpec (TaskTemplate (sv_Spec (out ! 0))) = Some cs \<and> cs_Env cs = None)"
proof -
  let ?c = "example_config\<lparr>HideAllEnvs := True\<rparr>"
  obtain out where out: "sanitizeServices ?c [demo_service None [''A=1'']] = Inr out"
    by (simp add: sanitizeServices_def sanitizeService_eq demo_service_def)
  with sanitizeServices_switches [OF out, of 0] show ?thesis by auto
qed



text \<open>
  C38: hiding the service labels switches the per-service hiding of variables off: the labels are set
  to nil before the \<open>hide-envs\<close> label is read, so the environment is returned unredacted although
  the service asks for the opposite.
\<close>

theorem hide_labels_disables_hide_envs:
  assumes "ContainerSpec (TaskTemplate (sv_Spec svc)) = Some cs"
    and "hidesLabels c ''service''" and "\<not> HideAllEnvs c"
  shows "\<exists>svc' cs'. sanitizeService c svc = Inr svc' \<and>
    ContainerSpec (TaskTemplate (sv_Spec svc')) = Some cs' \<and> cs_Env cs' = cs_Env cs"
  using assms
  by (simp add: sanitizeService_eq redact_service_def redact_container_def redact_flags_def hidden_envs_def
      redact_env_none option.map_ident)

theorem hide_labels_disables_hide_envs_witness:
  "\<exists>svc' cs'. sanitizeService (example_config\<lparr>HideLabels := [''service'']\<rparr>)
       (demo_service (Some [hide_envs_key \<mapsto> ''PASSWORD'']) [''PASSWORD=hunter2'']) = Inr svc' \<and>
     ContainerSpec (TaskTemplate (sv_Spec svc')) = Some cs' \<and> cs_Env cs' = Some [''PASSWORD=hunter2'']"
  using hide_labels_disables_hide_envs
    [of "demo_service (Some [hide_envs_key \<mapsto> ''PASSWORD'']) [''PASSWORD=hunter2'']" _
      "example_config\<lparr>HideLabels := [''service'']\<rparr>"]
  by (simp add: demo_service_def hidesLabels_def example_config_def)

text \<open>
  The \<open>hide-labels\<close> label of a service, and independently that of its container, replaces the
  value of every label it names by \<open>(sanitized)\<close>, adds no label and leaves every other label alone.
\<close>

theorem sanitizeService_hides_labels:
  assumes "sanitizeService c svc = Inr svc'" and "sp_Labels (sv_Spec svc') = Some m'"
  shows "\<exists>m. sp_Labels (sv_Spec svc) = Some m \<and> dom m' = dom m \<and>
    (\<forall>k. m' k = (case m hide_labels_key of
       None \<Rightarrow> m k
     | Some raw \<Rightarrow> if k \<in> listed raw \<and> k \<in> dom m then Some sanitized else m k))"
proof -
  from assms obtain m where m: "sp_Labels (sv_Spec svc) = Some m" "m' = redact_labels m"
    by (auto simp: sanitizeService_eq redact_service_def split: option.splits if_splits)
  show ?thesis
    by (rule exI [of _ m]) (auto simp: m redact_labels_def split: option.splits if_splits)
qed

theorem sanitizeService_hides_labels_witness:
  "\<exists>svc' m m'. sanitizeService example_config (demo_service (Some [''a'' \<mapsto> ''b'']) []) = Inr svc' \<and>
     sp_Labels (sv_Spec svc') = Some m' \<and> dom m' = dom m \<and> m = [''a'' \<mapsto> ''b'']"
proof -
  let ?svc = "demo_service (Some [''a'' \<mapsto> ''b'']) []"
  have ok: "sanitizeService example_config ?svc = Inr (redact_service example_config ?svc)"
    by (simp add: sanitizeService_eq demo_service_def)
  have ls: "sp_Labels (sv_Spec (redact_service example_config ?svc)) = Some (redact_labels [''a'' \<mapsto> ''b''])"
    by (simp add: redact_service_def demo_service_def hidesLabels_def example_config_def)
  from sanitizeService_hides_labels [OF ok ls] ok ls show ?thesis
    by (auto simp: demo_service_def)
qed

text \<open>The switches that \<open>sanitizeTasks\<close> looks at, and the redacted task.\<close>

definition task_switch :: "config \<Rightarrow> bool" where
  "task_switch c \<longleftrightarrow>
     HideAllConfigs c \<or> HideAllEnvs c \<or> HideAllMounts c \<or> HideAllSecrets c \<or> hidesLabels c ''container''"

definition redact_task :: "config \<Rightarrow> 'o task \<Rightarrow> 'o task" where
  "redact_task c t =
     t\<lparr>tk_Spec := (tk_Spec t)\<lparr>ContainerSpec := map_option (redact_flags c) (ContainerSpec (tk_Spec t))\<rparr>\<rparr>"

lemma sanitizeTask_eq:
  "go_map (\<lambda>ts. t\<lparr>tk_Spec := ts\<rparr>) (hide_flags c (tk_Spec t)) =
     (if ContainerSpec (tk_Spec t) \<noteq> None \<or> \<not> task_switch c then Inr (redact_task c t) else Inl NilDereference)"
  by (cases "ContainerSpec (tk_Spec t)")
    (auto simp: hide_flags_some hide_flags_none redact_task_def task_switch_def)

lemma sanitizeTasks_eq:
  "sanitizeTasks c tasks =
     (if \<forall>t \<in> set tasks. ContainerSpec (tk_Spec t) \<noteq> None \<or> \<not> task_switch c
      then Inr (map (redact_task c) tasks) else Inl NilDereference)"
  unfolding sanitizeTasks_def by (rule traverse_case) (rule sanitizeTask_eq)

text \<open>
  C20: \<open>sanitizeTasks\<close> hides on every task what its switches say (configs, environment, mounts,
  secrets, container labels) and changes nothing else; a task without a \<open>ContainerSpec\<close> passes when
  no switch is on and makes it panic when one is.
\<close>

theorem sanitizeTasks_refines:
  "sanitizeTasks c tasks =
     (if \<forall>t \<in> set tasks. ContainerSpec (tk_Spec t) \<noteq> None \<or> \<not> task_switch c
      then Inr (map (redact_task c) tasks) else Inl NilDereference)"
  by (rule sanitizeTasks_eq)

definition demo_task :: "string \<Rightarrow> int \<Rightarrow> task_state \<Rightarrow> task_state \<Rightarrow> unit task" where
  "demo_task i time st desired =
     \<lparr>ID = i, ServiceID = ''s1'', NodeID = ''n1'', Slot = 1, CreatedAt = time, UpdatedAt = time,
      State = st, DesiredState = desired,
      tk_Spec = \<lparr>ContainerSpec = Some \<lparr>cs_Labels = None, cs_Env = Some [''A=1''], cs_Mounts = None,
          cs_Configs = None, cs_Secrets = None, cs_rest = ()\<rparr>, ts_rest = ()\<rparr>, tk_rest = ()\<rparr>"

theorem sanitizeTasks_refines_witness:
  "sanitizeTasks (example_config\<lparr>HideAllEnvs := True\<rparr>) [demo_task ''t'' 0 StateRunning StateRunning] =
   Inr [redact_task (example_config\<lparr>HideAllEnvs := True\<rparr>) (demo_task ''t'' 0 StateRunning StateRunning)]"
  using sanitizeTasks_refines [of "example_config\<lparr>HideAllEnvs := True\<rparr>" "[demo_task ''t'' 0 StateRunning StateRunning]"]
  by (simp add: demo_task_def)

text \<open>
  The networks that are returned are the swarm's networks without the ingress network, in their
  order, with their labels removed exactly when \<open>HIDE_LABELS\<close> says so; an error of the Docker API
  stays an error.
\<close>

theorem getNetworksInfo_correct:
  "getNetworksInfo c None = None \<and>
   getNetworksInfo c (Some nets) =
     Some (map (\<lambda>n. n\<lparr>nw_Labels := (if hidesLabels c ''network'' then None else nw_Labels n)\<rparr>)
       [n \<leftarrow> nets. nw_Name n \<noteq> ''ingress''])"
  by (simp add: getNetworksInfo_def filter_networks_eq)

end
