(* ===== verification/Tasks.thy ===== *)
theory Tasks
  imports Sanitize
begin

text \<open>
  \<open>getTasksInfo\<close> of \<open>internal/docker/inspect.go\<close> and its cache of stopped tasks.  Times are
  nanoseconds.  Go iterates over a map in an unspecified order, so the three loops over maps take
  the order of the keys as an argument, and \<open>orders_ok\<close> says that each order lists the keys of the
  map at that point.  Tasks are values; the \<open>ContainerSpec\<close> that a cached task shares with the task
  it was copied from is written only by \<open>sanitizeTasks\<close>, which is idempotent
  (\<open>redact_task_idem\<close>), so that redacting it early makes no difference.
\<close>

record 'o cachedTask =
  ct_task :: "'o task"
  firstSeen :: int

type_synonym 'o task_cache = "string \<rightharpoonup> 'o cachedTask"

text \<open>\<open>Time.Sub\<close> saturates at the bounds of a \<open>Duration\<close>.\<close>

definition time_sub :: "int \<Rightarrow> int \<Rightarrow> int" where
  "time_sub t u = max int_min (min int_max (t - u))"

definition failedTaskGracePeriod :: int where
  "failedTaskGracePeriod = 30 * 1000000000"

definition is_stopped :: "'o task \<Rightarrow> bool" where
  "is_stopped t \<longleftrightarrow> State t = StateFailed \<or> State t = StateComplete"

definition is_desired :: "'o task \<Rightarrow> bool" where
  "is_desired t \<longleftrightarrow> DesiredState t = StateRunning \<or> DesiredState t = StateAccepted"

section \<open>The single pass over the fetched tasks\<close>

definition cache_task :: "int \<Rightarrow> 'o task \<Rightarrow> 'o task_cache \<Rightarrow> 'o task_cache" where
  "cache_task now t cache =
     (if is_stopped t then
        (case cache (ID t) of
           Some entry \<Rightarrow> cache(ID t \<mapsto> \<lparr>ct_task = t, firstSeen = firstSeen entry\<rparr>)
         | None \<Rightarrow>
             if time_sub now (UpdatedAt t) < failedTaskGracePeriod
             then cache(ID t \<mapsto> \<lparr>ct_task = t, firstSeen = now\<rparr>) else cache)
      else cache)"

fun scan_tasks ::
  "int \<Rightarrow> 'o task list \<Rightarrow> 'o task_cache \<times> 'o task list \<times> string set
     \<Rightarrow> 'o task_cache \<times> 'o task list \<times> string set" where
  "scan_tasks now [] st = st"
| "scan_tasks now (t # ts) (cache, result, resultIDs) =
     scan_tasks now ts
       (cache_task now t cache,
        if is_desired t then result @ [t] else result,
        if is_desired t then insert (ID t) resultIDs else resultIDs)"

section \<open>The loops over the cache\<close>

fun evict :: "int \<Rightarrow> string list \<Rightarrow> 'o task_cache \<Rightarrow> 'o task_cache" where
  "evict now [] cache = cache"
| "evict now (i # is) cache =
     evict now is
       (case cache i of
          None \<Rightarrow> cache
        | Some entry \<Rightarrow>
            if failedTaskGracePeriod \<le> time_sub now (firstSeen entry) then cache(i := None) else cache)"

definition slot_key :: "'o task \<Rightarrow> string" where
  "slot_key t =
     (if 0 < Slot t then ServiceID t @ '':'' @ Itoa (Slot t) else ServiceID t @ '':'' @ NodeID t)"

definition keep_newer :: "string set \<Rightarrow> 'o task \<Rightarrow> (string \<rightharpoonup> 'o task) \<Rightarrow> (string \<rightharpoonup> 'o task)" where
  "keep_newer resultIDs t newest =
     (if ID t \<in> resultIDs then newest
      else (case newest (slot_key t) of
              None \<Rightarrow> newest(slot_key t \<mapsto> t)
            | Some existing \<Rightarrow>
                if CreatedAt existing < CreatedAt t then newest(slot_key t \<mapsto> t) else newest))"

fun newest_stopped ::
  "string set \<Rightarrow> 'o task_cache \<Rightarrow> string list \<Rightarrow> (string \<rightharpoonup> 'o task) \<Rightarrow> (string \<rightharpoonup> 'o task)" where
  "newest_stopped resultIDs cache [] newest = newest"
| "newest_stopped resultIDs cache (i # is) newest =
     newest_stopped resultIDs cache is
       (case cache i of
          None \<Rightarrow> newest
        | Some entry \<Rightarrow> keep_newer resultIDs (ct_task entry) newest)"

fun append_tasks :: "(string \<rightharpoonup> 'o task) \<Rightarrow> string list \<Rightarrow> 'o task list \<Rightarrow> 'o task list" where
  "append_tasks newest [] result = result"
| "append_tasks newest (k # ks) result =
     append_tasks newest ks (case newest k of None \<Rightarrow> result | Some t \<Rightarrow> result @ [t])"

text \<open>
  The whole function: \<open>answer\<close> is what the Docker client returned, and the result is the tasks
  (\<open>None\<close> for the error) and the new cache.
\<close>

definition getTasksInfo ::
  "config \<Rightarrow> int \<Rightarrow> string list \<times> string list \<times> string list \<Rightarrow> 'o task list option \<Rightarrow> 'o task_cache
     \<Rightarrow> ('o task list option \<times> 'o task_cache) go" where
  "getTasksInfo c now orders answer cache =
     (case answer of
        None \<Rightarrow> Inr (None, cache)
      | Some tasks \<Rightarrow>
          (let (order1, order2, order3) = orders;
               (cache1, result, resultIDs) = scan_tasks now tasks (cache, [], {});
               cache2 = evict now order1 cache1;
               newest = newest_stopped resultIDs cache2 order2 Map.empty;
               result = append_tasks newest order3 result
           in go_map (\<lambda>r. (Some r, cache2)) (sanitizeTasks c result)))"

section \<open>Iteration orders\<close>

definition lists_keys :: "string list \<Rightarrow> (string \<rightharpoonup> 'v) \<Rightarrow> bool" where
  "lists_keys ks m \<longleftrightarrow> distinct ks \<and> set ks = dom m"

definition cache_after :: "int \<Rightarrow> string list \<Rightarrow> 'o task list \<Rightarrow> 'o task_cache \<Rightarrow> 'o task_cache" where
  "cache_after now order1 tasks cache = evict now order1 (fst (scan_tasks now tasks (cache, [], {})))"

definition newest_after ::
  "int \<Rightarrow> string list \<Rightarrow> string list \<Rightarrow> 'o task list \<Rightarrow> 'o task_cache \<Rightarrow> (string \<rightharpoonup> 'o task)" where
  "newest_after now order1 order2 tasks cache =
     newest_stopped (ID ` {t \<in> set tasks. is_desired t}) (cache_after now order1 tasks cache) order2 Map.empty"

definition orders_ok ::
  "int \<Rightarrow> string list \<times> string list \<times> string list \<Rightarrow> 'o task list \<Rightarrow> 'o task_cache \<Rightarrow> bool" where
  "orders_ok now orders tasks cache =
     (let (order1, order2, order3) = orders in
      lists_keys order1 (fst (scan_tasks now tasks (cache, [], {}))) \<and>
      lists_keys order2 (cache_after now order1 tasks cache) \<and>
      lists_keys order3 (newest_after now order1 order2 tasks cache))"

section \<open>Laws of the loops\<close>

lemma scan_tasks_result:
  "snd (scan_tasks now tasks (cache, result, ids)) =
     (result @ filter is_desired tasks, ids \<union> ID ` {t \<in> set tasks. is_desired t})"
  by (induction tasks arbitrary: cache result ids) auto

lemma scan_tasks_cache:
  "fst (scan_tasks now tasks (cache, result, ids)) = fold (cache_task now) tasks cache"
  by (induction tasks arbitrary: cache result ids) auto

lemma evict_eq:
  "evict now is cache i =
     (if i \<in> set is \<and> (\<exists>e. cache i = Some e \<and> failedTaskGracePeriod \<le> time_sub now (firstSeen e))
      then None else cache i)"
proof (induction "is" arbitrary: cache)
  case Nil
  then show ?case by simp
next
  case (Cons k ks)
  show ?case by (auto simp: Cons.IH split: option.split)
qed

lemma append_tasks_eq: "append_tasks newest ks result = result @ List.map_filter newest ks"
  by (induction newest ks result rule: append_tasks.induct)
    (auto simp: List.map_filter_def split: option.split)

lemma getTasksInfo_eq:
  "getTasksInfo c now (order1, order2, order3) (Some tasks) cache =
     go_map (\<lambda>r. (Some r, cache_after now order1 tasks cache))
       (sanitizeTasks c (filter is_desired tasks @
          List.map_filter (newest_after now order1 order2 tasks cache) order3))"
proof -
  obtain c1 r ids where s: "scan_tasks now tasks (cache, [], {}) = (c1, r, ids)"
    by (cases "scan_tasks now tasks (cache, [], {})") auto
  with scan_tasks_result [of now tasks cache "[]" "{}"]
  have "r = filter is_desired tasks" "ids = ID ` {t \<in> set tasks. is_desired t}" by auto
  with s show ?thesis
    by (simp add: getTasksInfo_def cache_after_def newest_after_def append_tasks_eq Let_def)
qed

lemma redact_flags_idem: "redact_flags c (redact_flags c cs) = redact_flags c cs"
  by (simp add: redact_flags_def)

lemma redact_task_idem: "redact_task c (redact_task c t) = redact_task c t"
  by (simp add: redact_task_def option.map_comp o_def redact_flags_idem)

text \<open>What \<open>newest_stopped\<close> has found after the keys \<open>is\<close>.\<close>

definition candidates :: "string set \<Rightarrow> 'o task_cache \<Rightarrow> string list \<Rightarrow> 'o task set" where
  "candidates ids cache is = {ct_task e |e i. i \<in> set is \<and> cache i = Some e \<and> ID (ct_task e) \<notin> ids}"

definition newest_ok :: "'o task set \<Rightarrow> (string \<rightharpoonup> 'o task) \<Rightarrow> bool" where
  "newest_ok cand newest \<longleftrightarrow>
     (\<forall>k t. newest k = Some t \<longrightarrow> t \<in> cand \<and> slot_key t = k) \<and>
     (\<forall>u \<in> cand. \<exists>t. newest (slot_key u) = Some t \<and> CreatedAt u \<le> CreatedAt t)"

lemma keep_newer_ok:
  assumes "newest_ok cand newest" and "ID t \<notin> ids"
  shows "newest_ok (insert t cand) (keep_newer ids t newest)"
  using assms by (auto simp: newest_ok_def keep_newer_def split: option.split)

lemma newest_stopped_ok:
  "newest_ok cand newest \<Longrightarrow> newest_ok (cand \<union> candidates ids cache is) (newest_stopped ids cache is newest)"
proof (induction "is" arbitrary: cand newest)
  case Nil
  then show ?case by (simp add: candidates_def)
next
  case (Cons i "is")
  show ?case
  proof (cases "\<exists>e. cache i = Some e \<and> ID (ct_task e) \<notin> ids")
    case True
    then obtain e where e: "cache i = Some e" "ID (ct_task e) \<notin> ids" by blast
    have "candidates ids cache (i # is) = insert (ct_task e) (candidates ids cache is)"
      using e by (auto simp: candidates_def)
    with Cons.IH [OF keep_newer_ok [OF Cons.prems e(2)]] e show ?thesis by simp
  next
    case False
    then have "candidates ids cache (i # is) = candidates ids cache is"
      by (auto simp: candidates_def)
    with Cons.IH [OF Cons.prems] False show ?thesis
      by (auto simp: keep_newer_def split: option.split)
  qed
qed

lemma newest_after_ok:
  "newest_ok (candidates (ID ` {t \<in> set tasks. is_desired t}) (cache_after now order1 tasks cache) order2)
     (newest_after now order1 order2 tasks cache)"
  using newest_stopped_ok [of "{}" Map.empty] by (simp add: newest_after_def newest_ok_def)

section \<open>The cache\<close>

text \<open>The entries of the cache: filed under their own identifier, stopped, and first seen in the past.\<close>

definition entry_ok :: "int \<Rightarrow> string \<Rightarrow> 'o cachedTask \<Rightarrow> bool" where
  "entry_ok now i e \<longleftrightarrow> ID (ct_task e) = i \<and> is_stopped (ct_task e) \<and> firstSeen e \<le> now"

definition in_grace :: "int \<Rightarrow> 'o cachedTask \<Rightarrow> bool" where
  "in_grace now e \<longleftrightarrow> time_sub now (firstSeen e) < failedTaskGracePeriod"

definition cache_ok :: "int \<Rightarrow> 'o task_cache \<Rightarrow> bool" where
  "cache_ok now cache \<longleftrightarrow> (\<forall>i e. cache i = Some e \<longrightarrow> entry_ok now i e \<and> in_grace now e)"

text \<open>What the pass over the tasks does to one entry.\<close>

definition entry_from :: "int \<Rightarrow> 'o task set \<Rightarrow> 'o task_cache \<Rightarrow> string \<Rightarrow> 'o cachedTask \<Rightarrow> bool" where
  "entry_from now seen cache i e \<longleftrightarrow>
     (case cache i of
        Some e0 \<Rightarrow> firstSeen e = firstSeen e0 \<and> (ct_task e = ct_task e0 \<or> ct_task e \<in> seen)
      | None \<Rightarrow> firstSeen e = now \<and> ct_task e \<in> seen \<and>
          (\<exists>t \<in> seen. ID t = i \<and> is_stopped t \<and> time_sub now (UpdatedAt t) < failedTaskGracePeriod))"

lemma cache_task_apply:
  "cache_task now t cache i =
     (if is_stopped t \<and> ID t = i then
        (case cache i of
           Some entry \<Rightarrow> Some \<lparr>ct_task = t, firstSeen = firstSeen entry\<rparr>
         | None \<Rightarrow> if time_sub now (UpdatedAt t) < failedTaskGracePeriod
                   then Some \<lparr>ct_task = t, firstSeen = now\<rparr> else None)
      else cache i)"
  by (auto simp: cache_task_def split: option.split)

lemma scan_snoc:
  "fold (cache_task now) (tasks @ [t]) cache i =
     (if is_stopped t \<and> ID t = i then
        (case fold (cache_task now) tasks cache i of
           Some entry \<Rightarrow> Some \<lparr>ct_task = t, firstSeen = firstSeen entry\<rparr>
         | None \<Rightarrow> if time_sub now (UpdatedAt t) < failedTaskGracePeriod
                   then Some \<lparr>ct_task = t, firstSeen = now\<rparr> else None)
      else fold (cache_task now) tasks cache i)"
  using cache_task_apply [of now t "fold (cache_task now) tasks cache" i] by simp

lemma scan_keeps: "fold (cache_task now) tasks cache i = None \<Longrightarrow> cache i = None"
proof (induction tasks rule: rev_induct)
  case (snoc t tasks)
  from snoc.prems [unfolded scan_snoc] snoc.IH show ?case by (auto split: if_splits option.splits)
qed simp

lemma entry_from_mono: "entry_from now seen cache i e \<Longrightarrow> entry_from now (insert t seen) cache i e"
  by (auto simp: entry_from_def split: option.splits)

lemma scan_entry_from:
  assumes "fold (cache_task now) tasks cache i = Some e"
  shows "entry_from now (set tasks) cache i e"
  using assms
proof (induction tasks arbitrary: e rule: rev_induct)
  case Nil
  then show ?case by (simp add: entry_from_def)
next
  case (snoc t tasks)
  let ?m = "fold (cache_task now) tasks cache"
  consider (same) "?m i = Some e" | (new) "?m i = None" "ID t = i" "is_stopped t" "firstSeen e = now"
      "ct_task e = t" "time_sub now (UpdatedAt t) < failedTaskGracePeriod"
    | (old) e' where "?m i = Some e'" "ct_task e = t" "firstSeen e = firstSeen e'"
    using snoc.prems [unfolded scan_snoc] by (auto split: if_splits option.splits)
  then show ?case
  proof cases
    case same
    then show ?thesis using entry_from_mono [OF snoc.IH [OF same]] by simp
  next
    case new
    then show ?thesis using scan_keeps [OF new(1)] by (auto simp: entry_from_def)
  next
    case old
    then show ?thesis using snoc.IH [OF old(1)] by (auto simp: entry_from_def split: option.splits)
  qed
qed

lemma scan_entry_ok:
  assumes "fold (cache_task now) tasks cache i = Some e" and "\<And>i e. cache i = Some e \<Longrightarrow> entry_ok now i e"
  shows "entry_ok now i e"
  using assms(1)
proof (induction tasks arbitrary: e rule: rev_induct)
  case Nil
  then show ?case using assms(2) by simp
next
  case (snoc t tasks)
  from snoc.prems [unfolded scan_snoc] snoc.IH show ?case
    by (auto simp: entry_ok_def split: option.splits if_splits)
qed

lemma cache_after_Some:
  assumes "cache_after now order1 tasks cache i = Some e"
    and "lists_keys order1 (fst (scan_tasks now tasks (cache, [], {})))"
  shows "fold (cache_task now) tasks cache i = Some e" and "in_grace now e"
  using assms by (auto simp: cache_after_def evict_eq scan_tasks_cache lists_keys_def in_grace_def split: if_splits)

lemma cache_after_ok:
  assumes "cache_ok now0 cache" and "now0 \<le> now" and "orders_ok now (order1, order2, order3) tasks cache"
  shows "cache_ok now (cache_after now order1 tasks cache)"
proof -
  have old: "entry_ok now i e" if "cache i = Some e" for i e
    using assms(1,2) that by (force simp: cache_ok_def entry_ok_def)
  have keys: "lists_keys order1 (fst (scan_tasks now tasks (cache, [], {})))"
    using assms(3) by (simp add: orders_ok_def)
  show ?thesis
    unfolding cache_ok_def using cache_after_Some [OF _ keys] scan_entry_ok [OF _ old] by blast
qed

section \<open>The cache over successive polls\<close>

text \<open>
  One poll at a time not before the previous one, with any answer of the Docker API and any
  iteration orders; a failed fetch leaves the cache alone.
\<close>

inductive poll_step :: "config \<Rightarrow> int \<times> 'o task_cache \<Rightarrow> int \<times> 'o task_cache \<Rightarrow> bool" for c where
  poll_ok: "now0 \<le> now \<Longrightarrow> orders_ok now orders tasks cache \<Longrightarrow>
     getTasksInfo c now orders (Some tasks) cache = Inr (Some out, cache') \<Longrightarrow>
     poll_step c (now0, cache) (now, cache')"
| poll_failed: "getTasksInfo c now orders None cache = Inr (None, cache') \<Longrightarrow>
     poll_step c (now0, cache) (now0, cache')"

lemma getTasksInfo_cache:
  "getTasksInfo c now orders (Some tasks) cache = Inr (out, cache') \<Longrightarrow>
   cache' = cache_after now (fst orders) tasks cache"
  by (cases orders) (auto simp: getTasksInfo_eq)

lemma poll_step_inv: "cache_ok (fst s) (snd s) \<Longrightarrow> poll_step c s t \<Longrightarrow> cache_ok (fst t) (snd t)"
proof (elim poll_step.cases)
  fix now0 now orders tasks out and cache cache' :: "'a task_cache"
  assume "cache_ok (fst s) (snd s)" "s = (now0, cache)" and t: "t = (now, cache')"
    and le: "now0 \<le> now" and orders: "orders_ok now orders tasks cache"
    and run: "getTasksInfo c now orders (Some tasks) cache = Inr (Some out, cache')"
  then have ok: "cache_ok now0 cache" by simp
  obtain o1 o2 o3 where o: "orders = (o1, o2, o3)" by (cases orders) auto
  have "cache_ok now (cache_after now o1 tasks cache)"
    by (rule cache_after_ok [OF ok le orders [unfolded o]])
  with getTasksInfo_cache [OF run] show "cache_ok (fst t) (snd t)" by (simp add: t o)
qed (simp add: getTasksInfo_def)

interpretation task_polls: invariant_system
  "\<lambda>s. snd s = Map.empty" "poll_step c" "\<lambda>s. cache_ok (fst s) (snd s)"
  for c
  by unfold_locales (auto simp: cache_ok_def [of _ Map.empty] intro: poll_step_inv)

section \<open>Properties\<close>


text \<open>
  A poll keeps the time at which it first saw a stopped task, so that the task leaves the view
  at most 30 s later, and it takes a new entry only for a task that is reported stopped and was
  updated less than 30 s ago: an old task never enters, and an evicted one does not come back
  unless it is updated again.
\<close>

theorem stopped_cache_update:
  assumes "orders_ok now orders tasks cache"
    and "getTasksInfo c now orders (Some tasks) cache = Inr (out, cache')" and "cache' i = Some e"
  shows "time_sub now (firstSeen e) < failedTaskGracePeriod \<and>
    (case cache i of
       Some e0 \<Rightarrow> firstSeen e = firstSeen e0
     | None \<Rightarrow> firstSeen e = now \<and>
         (\<exists>t \<in> set tasks. ID t = i \<and> (State t = StateFailed \<or> State t = StateComplete) \<and>
            time_sub now (UpdatedAt t) < failedTaskGracePeriod))"
proof -
  obtain o1 o2 o3 where o: "orders = (o1, o2, o3)" by (cases orders) auto
  have e: "cache_after now o1 tasks cache i = Some e"
    using getTasksInfo_cache [OF assms(2)] assms(3) by (simp add: o)
  have keys: "lists_keys o1 (fst (scan_tasks now tasks (cache, [], {})))"
    using assms(1) by (simp add: o orders_ok_def)
  from scan_entry_from [OF cache_after_Some(1) [OF e keys]] cache_after_Some(2) [OF e keys]
  show ?thesis
    by (auto simp: entry_from_def in_grace_def is_stopped_def split: option.splits)
qed

lemma map_filter_keys:
  assumes "\<And>k v. m k = Some v \<Longrightarrow> key v = k" and "distinct ks"
  shows "distinct (map key (List.map_filter m ks))"
  using assms(2)
proof (induction ks)
  case (Cons k ks)
  have "set (map key (List.map_filter m ks)) \<subseteq> set ks"
    using assms(1) by (auto simp: List.map_filter_def)
  with Cons show ?case by (cases "m k") (auto simp: map_filter_simps assms(1))
qed (simp add: map_filter_simps)

text \<open>
  C21: what a poll returns: first every task whose desired state is running or accepted, in the order
  of the Docker API, then stopped tasks from the cache, at most one per slot, none of which is
  already listed.  The one shown for a slot is the most recently created among the cached tasks of
  that slot, every slot with such a task is represented, and all of them are within the grace
  period.  Everything is redacted.
\<close>

theorem getTasksInfo_contents:
  assumes cache: "cache_ok now0 cache" "now0 \<le> now" and orders: "orders_ok now orders tasks cache"
    and run: "getTasksInfo c now orders (Some tasks) cache = Inr (Some out, cache')"
  shows "\<exists>extra. out = map (redact_task c) ([t \<leftarrow> tasks. is_desired t] @ extra) \<and>
    distinct (map slot_key extra) \<and>
    (\<forall>t \<in> set extra. is_stopped t \<and> ID t \<notin> ID ` {u \<in> set tasks. is_desired u} \<and>
       (\<exists>e. cache' (ID t) = Some e \<and> ct_task e = t \<and> time_sub now (firstSeen e) < failedTaskGracePeriod)) \<and>
    (\<forall>i e. cache' i = Some e \<and> i \<notin> ID ` {u \<in> set tasks. is_desired u} \<longrightarrow>
       (\<exists>t \<in> set extra. slot_key t = slot_key (ct_task e) \<and> CreatedAt (ct_task e) \<le> CreatedAt t))"
proof -
  obtain o1 o2 o3 where o: "orders = (o1, o2, o3)" by (cases orders) auto
  let ?ids = "ID ` {u \<in> set tasks. is_desired u}"
  let ?new = "newest_after now o1 o2 tasks cache"
  define extra where "extra = List.map_filter ?new o3"
  have c': "cache' = cache_after now o1 tasks cache"
    using getTasksInfo_cache [OF run] by (simp add: o)
  have keys: "lists_keys o2 cache'" "lists_keys o3 ?new"
    using orders by (simp_all add: o orders_ok_def c')
  have ok: "cache_ok now cache'"
    unfolding c' by (rule cache_after_ok [OF cache orders [unfolded o]])
  have new: "newest_ok (candidates ?ids cache' o2) ?new" unfolding c' by (rule newest_after_ok)
  have extra_set: "t \<in> set extra \<longleftrightarrow> (\<exists>k. ?new k = Some t)" for t
    using keys(2) by (auto simp: extra_def List.map_filter_def lists_keys_def image_iff)
  have "sanitizeTasks c ([t \<leftarrow> tasks. is_desired t] @ extra) = Inr out"
    using run by (auto simp: o getTasksInfo_eq extra_def)
  then have out: "out = map (redact_task c) ([t \<leftarrow> tasks. is_desired t] @ extra)"
    by (auto simp: sanitizeTasks_eq split: if_splits)
  have "distinct (map slot_key extra)"
    unfolding extra_def using new keys(2)
    by (intro map_filter_keys) (auto simp: newest_ok_def lists_keys_def)
  moreover have "is_stopped t \<and> ID t \<notin> ?ids \<and>
      (\<exists>e. cache' (ID t) = Some e \<and> ct_task e = t \<and> time_sub now (firstSeen e) < failedTaskGracePeriod)"
    if "t \<in> set extra" for t
  proof -
    from that extra_set new have "t \<in> candidates ?ids cache' o2" by (auto simp: newest_ok_def)
    then obtain i e where "cache' i = Some e" "ct_task e = t" "ID t \<notin> ?ids"
      unfolding candidates_def by blast
    with ok show ?thesis unfolding cache_ok_def entry_ok_def in_grace_def by blast
  qed
  moreover have "\<exists>t \<in> set extra. slot_key t = slot_key (ct_task e) \<and> CreatedAt (ct_task e) \<le> CreatedAt t"
    if "cache' i = Some e" "i \<notin> ?ids" for i e
  proof -
    have "ct_task e \<in> candidates ?ids cache' o2"
      using that ok keys(1) unfolding candidates_def lists_keys_def cache_ok_def entry_ok_def by blast
    with new extra_set show ?thesis unfolding newest_ok_def by metis
  qed
  ultimately show ?thesis using out by blast
qed

text \<open>
  The key under which stopped tasks are grouped identifies the slot: two tasks get the same key
  exactly when they belong to the same service and to the same replica (or, for a global service,
  to the same node), provided that identifiers of services have no colon and that no node is named
  like a slot number.
\<close>

theorem slot_key_identifies:
  assumes "CHR '':'' \<notin> set (ServiceID t)" and "CHR '':'' \<notin> set (ServiceID u)"
    and "NodeID t \<noteq> Itoa (Slot u)" and "NodeID u \<noteq> Itoa (Slot t)"
  shows "slot_key t = slot_key u \<longleftrightarrow> ServiceID t = ServiceID u \<and>
    (if 0 < Slot t then Slot u = Slot t else \<not> 0 < Slot u \<and> NodeID u = NodeID t)"
proof -
  have split: "ServiceID t @ '':'' @ x = ServiceID u @ '':'' @ y \<longleftrightarrow> ServiceID t = ServiceID u \<and> x = y" for x y
  proof
    assume eq: "ServiceID t @ '':'' @ x = ServiceID u @ '':'' @ y"
    have "IndexByte (ServiceID t @ '':'' @ x) CHR '':'' = Some (length (ServiceID t))"
      "IndexByte (ServiceID u @ '':'' @ y) CHR '':'' = Some (length (ServiceID u))"
      using IndexByte_append [OF assms(1)] IndexByte_append [OF assms(2)] by simp_all
    then have "length (ServiceID t) = length (ServiceID u)" unfolding eq by simp
    with eq show "ServiceID t = ServiceID u \<and> x = y" by simp
  qed simp
  show ?thesis
    using assms(3,4) Itoa_inj [of "Slot t" "Slot u"] by (auto simp: slot_key_def split [simplified])
qed

section \<open>A poll, concretely\<close>

definition demo_running :: "unit task" where
  "demo_running = demo_task ''r'' 5 StateRunning StateRunning"

definition demo_failed :: "unit task" where
  "demo_failed = demo_task ''f'' 3 StateFailed (OtherState ''shutdown'')"

definition demo_entry :: "unit cachedTask" where
  "demo_entry = \<lparr>ct_task = demo_failed, firstSeen = 10\<rparr>"

definition demo_orders :: "string list \<times> string list \<times> string list" where
  "demo_orders = ([''f''], [''f''], [slot_key demo_failed])"

lemmas demo_task_defs = demo_running_def demo_failed_def demo_entry_def demo_task_def

lemma demo_scan:
  "scan_tasks 10 [demo_running, demo_failed] (Map.empty, [], {}) = ([''f'' \<mapsto> demo_entry], [demo_running], {''r''})"
  by (simp add: demo_task_defs cache_task_def is_stopped_def is_desired_def time_sub_def int_min_def
      int_max_def failedTaskGracePeriod_def)

lemma demo_cache_after: "cache_after 10 [''f''] [demo_running, demo_failed] Map.empty = [''f'' \<mapsto> demo_entry]"
  unfolding cache_after_def demo_scan
  by (simp add: demo_entry_def time_sub_def int_min_def int_max_def failedTaskGracePeriod_def)

lemma demo_newest:
  "newest_after 10 [''f''] [''f''] [demo_running, demo_failed] Map.empty = [slot_key demo_failed \<mapsto> demo_failed]"
proof -
  have "is_desired demo_running" "\<not> is_desired demo_failed" and r: "ID demo_running = ''r''"
    by (simp_all add: demo_task_defs is_desired_def)
  then have "{t \<in> set [demo_running, demo_failed]. is_desired t} = {demo_running}" by auto
  with r have "ID ` {t \<in> set [demo_running, demo_failed]. is_desired t} = {''r''}" by simp
  then show ?thesis
    unfolding newest_after_def demo_cache_after by (simp add: keep_newer_def demo_task_defs)
qed

lemma demo_orders_ok: "orders_ok 10 demo_orders [demo_running, demo_failed] Map.empty"
  unfolding orders_ok_def demo_orders_def
  by (simp add: lists_keys_def demo_scan demo_cache_after demo_newest del: scan_tasks.simps)

lemma demo_poll:
  "getTasksInfo example_config 10 demo_orders (Some [demo_running, demo_failed]) Map.empty =
     Inr (Some (map (redact_task example_config) [demo_running, demo_failed]), [''f'' \<mapsto> demo_entry])"
proof -
  have "[t \<leftarrow> [demo_running, demo_failed]. is_desired t] = [demo_running]"
    by (simp add: demo_task_defs is_desired_def)
  moreover have "ContainerSpec (tk_Spec demo_running) \<noteq> None" "ContainerSpec (tk_Spec demo_failed) \<noteq> None"
    by (simp_all add: demo_task_defs)
  ultimately show ?thesis
    by (simp add: demo_orders_def getTasksInfo_eq demo_newest demo_cache_after map_filter_simps
        sanitizeTasks_eq del: filter.simps)
qed


theorem stopped_cache_update_witness:
  "firstSeen demo_entry = 10 \<and> time_sub 10 (firstSeen demo_entry) < failedTaskGracePeriod"
  using conjunct1 [OF stopped_cache_update [OF demo_orders_ok demo_poll, of "''f''" demo_entry]]
  by (simp add: demo_entry_def)

theorem getTasksInfo_contents_witness:
  "\<exists>extra. map (redact_task example_config) [demo_running, demo_failed] =
     map (redact_task example_config) ([t \<leftarrow> [demo_running, demo_failed]. is_desired t] @ extra) \<and>
     distinct (map slot_key extra)"
  using getTasksInfo_contents [of 0 Map.empty 10, OF _ _ demo_orders_ok demo_poll]
  by (force simp: cache_ok_def)

theorem slot_key_identifies_witness:
  "slot_key demo_running = slot_key demo_failed \<and> ServiceID demo_running = ServiceID demo_failed"
proof -
  have "Itoa 1 \<noteq> ''n1''" by code_simp
  with slot_key_identifies [of demo_running demo_failed] show ?thesis by (simp add: demo_task_defs)
qed

definition demo_failed2 :: "unit task" where
  "demo_failed2 = demo_failed\<lparr>ID := ''g'', Slot := 2\<rparr>"

definition demo_cache2 :: "unit task_cache" where
  "demo_cache2 = [''f'' \<mapsto> demo_entry, ''g'' \<mapsto> \<lparr>ct_task = demo_failed2, firstSeen = 10\<rparr>]"

lemma demo2_keys: "slot_key demo_failed \<noteq> slot_key demo_failed2"
  using Itoa_inj [of 1 2] by (auto simp: slot_key_def demo_failed2_def demo_task_defs)

lemma demo2_cache_after: "cache_after 10 [''f'', ''g''] [] demo_cache2 = demo_cache2"
  by (simp add: cache_after_def demo_cache2_def demo_entry_def time_sub_def int_min_def int_max_def
      failedTaskGracePeriod_def)

lemma demo2_newest:
  "newest_after 10 [''f'', ''g''] [''f'', ''g''] [] demo_cache2 =
     [slot_key demo_failed \<mapsto> demo_failed, slot_key demo_failed2 \<mapsto> demo_failed2]"
  using demo2_keys
  by (simp add: newest_after_def demo2_cache_after) (simp add: demo_cache2_def keep_newer_def demo_entry_def)

lemma demo2_poll:
  assumes "set ks = {slot_key demo_failed, slot_key demo_failed2}" and "distinct ks"
  shows "orders_ok 10 ([''f'', ''g''], [''f'', ''g''], ks) [] demo_cache2"
    and "getTasksInfo example_config 10 ([''f'', ''g''], [''f'', ''g''], ks) (Some []) demo_cache2 =
      Inr (Some (map (redact_task example_config) (List.map_filter
        [slot_key demo_failed \<mapsto> demo_failed, slot_key demo_failed2 \<mapsto> demo_failed2] ks)), demo_cache2)"
proof -
  show "orders_ok 10 ([''f'', ''g''], [''f'', ''g''], ks) [] demo_cache2"
    using assms unfolding orders_ok_def
    by (simp add: lists_keys_def demo2_cache_after demo2_newest) (simp add: demo_cache2_def insert_commute)
  let ?m = "[slot_key demo_failed \<mapsto> demo_failed, slot_key demo_failed2 \<mapsto> demo_failed2]"
  have spec: "ContainerSpec (tk_Spec demo_failed) \<noteq> None" "ContainerSpec (tk_Spec demo_failed2) \<noteq> None"
    by (simp_all add: demo_failed2_def demo_task_defs)
  have "t = demo_failed \<or> t = demo_failed2" if "t \<in> set (List.map_filter ?m ks)" for t
    using that by (auto simp: List.map_filter_def split: if_splits)
  with spec have "\<forall>t \<in> set (List.map_filter ?m ks). ContainerSpec (tk_Spec t) \<noteq> None" by blast
  then show "getTasksInfo example_config 10 ([''f'', ''g''], [''f'', ''g''], ks) (Some []) demo_cache2 =
      Inr (Some (map (redact_task example_config) (List.map_filter ?m ks)), demo_cache2)"
    by (simp add: getTasksInfo_eq demo2_newest demo2_cache_after sanitizeTasks_eq)
qed

text \<open>
  The order of the stopped tasks in a snapshot is that of an iteration over a map, which Go does
  not fix: from the same cache and the same answer of the Docker API, two polls may return the same
  tasks in different orders.  Change detection compares the slices element by element, so that such
  a poll counts as a change.
\<close>

theorem stopped_order_unspecified:
  "\<exists>cache :: unit task_cache. \<exists>o1 o2 out1 out2.
     orders_ok 10 o1 [] cache \<and> orders_ok 10 o2 [] cache \<and>
     getTasksInfo example_config 10 o1 (Some []) cache = Inr (Some out1, cache) \<and>
     getTasksInfo example_config 10 o2 (Some []) cache = Inr (Some out2, cache) \<and>
     set out1 = set out2 \<and> out1 \<noteq> out2"
proof -
  let ?f = "slot_key demo_failed" and ?g = "slot_key demo_failed2"
  have 1: "set [?f, ?g] = {?f, ?g}" "distinct [?f, ?g]" and 2: "set [?g, ?f] = {?f, ?g}" "distinct [?g, ?f]"
    using demo2_keys by auto
  have r: "redact_task example_config demo_failed \<noteq> redact_task example_config demo_failed2"
    by (simp add: redact_task_def demo_failed2_def demo_task_defs)
  show ?thesis
    using demo2_poll [OF 1] demo2_poll [OF 2] demo2_keys r
    by (intro exI [of _ demo_cache2] exI conjI) (assumption | simp add: map_filter_simps; blast)+
qed

end
