(* ===== verification/Inspect.thy ===== *)
theory Inspect
  imports ClearProps Tasks
begin

text \<open>
  \<open>inspectSwarmServices\<close> of \<open>internal/docker/inspect.go\<close>: the polling loop with its cached groups,
  the assembly of a snapshot, its clearing by the sensitive paths, and change detection.

  The snapshot, the cached groups and the previously published snapshot share their slices, and
  \<open>ClearByPath\<close> writes through them.  The model therefore keeps the elements of the slices in a heap
  and lets the variables hold references into it.  Slices of different element types never share an
  array, so the heap is divided by group.  How a value of the Docker API looks through \<open>reflect\<close> is
  the parameter \<open>api\<close>, and \<open>json.Marshal\<close> is the parameter \<open>marshal\<close>.
\<close>

section \<open>Data\<close>

datatype group = GNetworks | GNodes | GServices | GTasks

text \<open>The elements of the groups as \<open>reflect\<close> sees them, and their types.\<close>

record 'o api_view =
  viewNetwork :: "'o summary \<Rightarrow> goval"
  viewNode :: "'o node \<Rightarrow> goval"
  viewService :: "'o service \<Rightarrow> goval"
  viewTask :: "'o task \<Rightarrow> goval"
  elemType :: "group \<Rightarrow> gotype"

type_synonym heap = "group \<Rightarrow> nat \<Rightarrow> goval list"

text \<open>\<open>SwarmData\<close>: a nil slice is \<open>None\<close>.\<close>

record swarm_data =
  sd_ClusterName :: string
  sd_AuthEnabled :: bool
  sd_slice :: "group \<Rightarrow> nat option"

definition json_field :: "string \<Rightarrow> string \<Rightarrow> struct_field" where
  "json_field name tag = \<lparr>sf_name = name, sf_pkgpath = [], sf_json = tag, sf_embedded = False\<rparr>"

definition swarm_fields :: "struct_field list" where
  "swarm_fields =
     [json_field ''ClusterName'' ''clusterName'', json_field ''AuthEnabled'' ''authEnabled'',
      json_field ''Networks'' ''networks'', json_field ''Nodes'' ''nodes'',
      json_field ''Services'' ''services'', json_field ''Tasks'' ''tasks'']"

definition slice_val :: "'o api_view \<Rightarrow> heap \<Rightarrow> swarm_data \<Rightarrow> group \<Rightarrow> goval" where
  "slice_val api h d g = VSlice (elemType api g) (map_option (h g) (sd_slice d g))"

definition data_kids :: "'o api_view \<Rightarrow> heap \<Rightarrow> swarm_data \<Rightarrow> goval list" where
  "data_kids api h d =
     [VString (sd_ClusterName d), VBool (sd_AuthEnabled d), slice_val api h d GNetworks,
      slice_val api h d GNodes, slice_val api h d GServices, slice_val api h d GTasks]"

definition data_view :: "'o api_view \<Rightarrow> heap \<Rightarrow> swarm_data \<Rightarrow> goval" where
  "data_view api h d = VStruct (zip swarm_fields (data_kids api h d))"

definition data_type :: "'o api_view \<Rightarrow> gotype" where
  "data_type api =
     TStruct (zip swarm_fields
       [TString, TBool, TSlice (elemType api GNetworks), TSlice (elemType api GNodes),
        TSlice (elemType api GServices), TSlice (elemType api GTasks)])"

text \<open>\<open>&data\<close>.\<close>

definition data_ptr :: "'o api_view \<Rightarrow> heap \<Rightarrow> swarm_data \<Rightarrow> goval" where
  "data_ptr api h d = VPtr (data_type api) (Some (data_view api h d))"

text \<open>\<open>reflect.DeepEqual\<close>: maps are compared entry by entry, nil and empty are different.\<close>

definition same_list :: "(goval \<Rightarrow> bool) list \<Rightarrow> goval list \<Rightarrow> bool" where
  "same_list = list_all2 (\<lambda>eq w. eq w)"

definition same_map :: "(string \<times> (goval \<Rightarrow> bool)) list \<Rightarrow> (string \<times> goval) list \<Rightarrow> bool" where
  "same_map es fs \<longleftrightarrow>
     length es = length fs \<and>
     (\<forall>e \<in> set es. case map_of fs (fst e) of None \<Rightarrow> False | Some w \<Rightarrow> snd e w)"

primrec deep_eq :: "goval \<Rightarrow> goval \<Rightarrow> bool" where
  "deep_eq (VBool a) = (\<lambda>w. w = VBool a)"
| "deep_eq (VInt a) = (\<lambda>w. w = VInt a)"
| "deep_eq (VString a) = (\<lambda>w. w = VString a)"
| "deep_eq (VOther k a) = (\<lambda>w. w = VOther k a)"
| "deep_eq (VPtr t p) =
     (\<lambda>w. case w of VPtr u q \<Rightarrow> t = u \<and> rel_option (\<lambda>eq x. eq x) (map_option deep_eq p) q | _ \<Rightarrow> False)"
| "deep_eq (VSlice t vs) =
     (\<lambda>w. case w of
        VSlice u ws \<Rightarrow> t = u \<and> rel_option same_list (map_option (map deep_eq) vs) ws | _ \<Rightarrow> False)"
| "deep_eq (VArray t vs) =
     (\<lambda>w. case w of VArray u ws \<Rightarrow> t = u \<and> same_list (map deep_eq vs) ws | _ \<Rightarrow> False)"
| "deep_eq (VMap s t m) =
     (\<lambda>w. case w of
        VMap r u n \<Rightarrow> s = r \<and> t = u \<and> rel_option same_map (map_option (map (map_prod id deep_eq)) m) n
      | _ \<Rightarrow> False)"
| "deep_eq (VStruct fs) =
     (\<lambda>w. case w of
        VStruct gs \<Rightarrow>
          list_all2 (\<lambda>e g. fst e = fst g \<and> snd e (snd g)) (map (map_prod id deep_eq) fs) gs
      | _ \<Rightarrow> False)"

section \<open>Operations\<close>

text \<open>
  Clearing \<open>data\<close> by one path: \<open>ClearByPath\<close> runs on what \<open>&data\<close> points to; a slice that it set to
  nil is nil in \<open>data\<close> only, and what it did to the elements of a slice happened in the heap.
\<close>

definition write_slice :: "group \<Rightarrow> goval \<Rightarrow> heap \<times> swarm_data \<Rightarrow> heap \<times> swarm_data" where
  "write_slice g v hs =
     (case (v, sd_slice (snd hs) g) of
        (VSlice t (Some xs), Some a) \<Rightarrow> ((fst hs)(g := (fst hs g)(a := xs)), snd hs)
      | _ \<Rightarrow> (fst hs, (snd hs)\<lparr>sd_slice := (sd_slice (snd hs))(g := None)\<rparr>))"

definition write_header :: "goval \<Rightarrow> goval \<Rightarrow> swarm_data \<Rightarrow> swarm_data" where
  "write_header name auth d =
     d\<lparr>sd_ClusterName := (case name of VString s \<Rightarrow> s | _ \<Rightarrow> sd_ClusterName d),
       sd_AuthEnabled := (case auth of VBool b \<Rightarrow> b | _ \<Rightarrow> sd_AuthEnabled d)\<rparr>"

definition write_back :: "goval list \<Rightarrow> heap \<times> swarm_data \<Rightarrow> heap \<times> swarm_data" where
  "write_back vs hs =
     write_slice GTasks (vs ! 5) (write_slice GServices (vs ! 4) (write_slice GNodes (vs ! 3)
       (write_slice GNetworks (vs ! 2) (fst hs, write_header (vs ! 0) (vs ! 1) (snd hs)))))"

definition clear_data :: "'o api_view \<Rightarrow> string \<Rightarrow> heap \<times> swarm_data \<Rightarrow> (heap \<times> swarm_data) go" where
  "clear_data api path hs =
     go_map (\<lambda>ve. write_back (kids (deref_val (fst ve))) hs) (ClearByPath (data_ptr api (fst hs) (snd hs)) path)"

primrec clear_all :: "'o api_view \<Rightarrow> string list \<Rightarrow> heap \<times> swarm_data \<Rightarrow> (heap \<times> swarm_data) go" where
  "clear_all api [] hs = Inr hs"
| "clear_all api (path # paths) hs = go_bind (clear_data api path hs) (clear_all api paths)"

text \<open>The variables of the goroutine, with the frames it has handed to \<open>hub.Publish\<close>.\<close>

record 'o inspector =
  heap :: heap
  next_addr :: nat
  current :: "group \<Rightarrow> nat option"
  haveStructural :: bool
  haveTasks :: bool
  lastPublished :: "swarm_data option"
  stoppedTaskCache :: "'o task_cache"
  outbox :: "string list"

definition new_inspector :: "'o inspector" where
  "new_inspector =
     \<lparr>heap = (\<lambda>_ _. []), next_addr = 0, current = (\<lambda>_. None), haveStructural = False, haveTasks = False,
      lastPublished = None, stoppedTaskCache = Map.empty, outbox = []\<rparr>"

text \<open>A freshly fetched slice gets an array of its own.\<close>

definition store_slice :: "group \<Rightarrow> goval list option \<Rightarrow> 'o inspector \<Rightarrow> 'o inspector" where
  "store_slice g xs st =
     (case xs of
        None \<Rightarrow> st\<lparr>current := (current st)(g := None)\<rparr>
      | Some ys \<Rightarrow>
          st\<lparr>heap := (heap st)(g := (heap st g)(next_addr st := ys)), next_addr := Suc (next_addr st),
             current := (current st)(g := Some (next_addr st))\<rparr>)"

definition refreshStructural ::
  "'o api_view \<Rightarrow> config \<Rightarrow> 'o node list option \<Rightarrow> 'o service list option \<Rightarrow> 'o summary list option
     \<Rightarrow> 'o inspector \<Rightarrow> (bool \<times> 'o inspector) go" where
  "refreshStructural api c nodeAnswer serviceAnswer networkAnswer st =
     go_map (\<lambda>s.
         case (getNodesInfo c nodeAnswer, s, getNetworksInfo c networkAnswer) of
           (Some n, Some s, Some nw) \<Rightarrow>
             (True,
              (store_slice GNodes (Some (map (viewNode api) n))
                (store_slice GServices (Some (map (viewService api) s))
                  (store_slice GNetworks (Some (map (viewNetwork api) nw)) st)))\<lparr>haveStructural := True\<rparr>)
         | _ \<Rightarrow> (False, st))
       (getServicesInfo c serviceAnswer)"

text \<open>\<open>getTasksInfo\<close> starts from a nil slice, so a result without tasks is nil.\<close>

definition refreshTasks ::
  "'o api_view \<Rightarrow> config \<Rightarrow> int \<Rightarrow> string list \<times> string list \<times> string list \<Rightarrow> 'o task list option
     \<Rightarrow> 'o inspector \<Rightarrow> (bool \<times> 'o inspector) go" where
  "refreshTasks api c now orders answer st =
     go_map (\<lambda>(r, cache).
         case r of
           None \<Rightarrow> (False, st\<lparr>stoppedTaskCache := cache\<rparr>)
         | Some ts \<Rightarrow>
             (True,
              (store_slice GTasks (if ts = [] then None else Some (map (viewTask api) ts))
                (st\<lparr>stoppedTaskCache := cache\<rparr>))\<lparr>haveTasks := True\<rparr>))
       (getTasksInfo c now orders answer (stoppedTaskCache st))"

definition publish :: "'o api_view \<Rightarrow> (goval \<Rightarrow> string option) \<Rightarrow> config \<Rightarrow> 'o inspector \<Rightarrow> 'o inspector go" where
  "publish api marshal c st =
     (if \<not> haveStructural st \<or> \<not> haveTasks st then Inr st
      else
        go_map (\<lambda>(h, data).
            let st = st\<lparr>heap := h\<rparr> in
            if (case lastPublished st of
                  None \<Rightarrow> True
                | Some prev \<Rightarrow> \<not> deep_eq (data_view api h data) (data_view api h prev))
            then
              (case marshal (data_view api h data) of
                 None \<Rightarrow> st
               | Some jsonBytes \<Rightarrow>
                   st\<lparr>lastPublished := Some data, outbox := outbox st @ [jsonBytes]\<rparr>)
            else st)
          (clear_all api (SensitiveDataPaths c)
            (heap st,
             \<lparr>sd_ClusterName = ClusterName c, sd_AuthEnabled = AuthEnabled c, sd_slice = current st\<rparr>)))"

text \<open>The fetches before the loop, and the two cases of the loop's \<open>select\<close>.\<close>

inductive inspect_start ::
  "'o api_view \<Rightarrow> (goval \<Rightarrow> string option) \<Rightarrow> config \<Rightarrow> 'o inspector \<Rightarrow> bool" for api marshal c where
  start: "refreshStructural api c nA sA nwA new_inspector = Inr (ok, st) \<Longrightarrow>
     refreshTasks api c now orders tA st = Inr (ok', st') \<Longrightarrow> publish api marshal c st' = Inr st'' \<Longrightarrow>
     inspect_start api marshal c st''"

inductive inspect_step ::
  "'o api_view \<Rightarrow> (goval \<Rightarrow> string option) \<Rightarrow> config \<Rightarrow> 'o inspector \<Rightarrow> 'o inspector \<Rightarrow> bool"
  for api marshal c where
  task_tick: "refreshTasks api c now orders tA st = Inr (True, st') \<Longrightarrow>
     publish api marshal c st' = Inr st'' \<Longrightarrow> inspect_step api marshal c st st''"
| task_tick_failed: "refreshTasks api c now orders tA st = Inr (False, st') \<Longrightarrow>
     inspect_step api marshal c st st'"
| structural_tick: "refreshStructural api c nA sA nwA st = Inr (True, st') \<Longrightarrow>
     publish api marshal c st' = Inr st'' \<Longrightarrow> inspect_step api marshal c st st''"
| structural_tick_failed: "refreshStructural api c nA sA nwA st = Inr (False, st') \<Longrightarrow>
     inspect_step api marshal c st st'"

end
