(* ===== verification/InspectInv.thy ===== *)
theory InspectInv
  imports Inspect
begin

text \<open>
  The laws of clearing a snapshot through shared slices, and the invariant of the polling loop.  A
  path acts on the fields of \<open>SwarmData\<close> one by one (\<open>field_run\<close>), so that clearing a new snapshot
  leaves alone every slice on which the paths have nothing left to do, in particular the slices it
  shares with the snapshot published before.
\<close>

section \<open>A path acts field by field\<close>

definition swarm_shape :: goval where
  "swarm_shape = VStruct (zip swarm_fields (replicate 6 (VBool False)))"

definition field_step :: "string \<Rightarrow> nat \<Rightarrow> goval \<Rightarrow> goval option" where
  "field_step path i w =
     (case splitPath path of
        [] \<Rightarrow> Some w
      | part # rest \<Rightarrow> kid_step (clearRecursive rest) (rest = []) part True RW swarm_shape i w)"

lemma swarm_fields_length [simp]: "length swarm_fields = 6"
  by (simp add: swarm_fields_def)

lemma data_kids_length [simp]: "length (data_kids api h d) = 6"
  by (simp add: data_kids_def)

lemma swarm_struct: "length ws = 6 \<Longrightarrow> VStruct (zip swarm_fields ws) = with_kids swarm_shape ws"
  by (simp add: swarm_shape_def)

lemma swarm_shape_kids: "length (kids swarm_shape) = 6"
  by (simp add: swarm_shape_def)

lemma field_run:
  assumes "length ws = 6"
  shows "clear_pass path (VPtr t (Some (VStruct (zip swarm_fields ws)))) = Some v' \<longleftrightarrow>
    (\<exists>us. v' = VPtr t (Some (VStruct (zip swarm_fields us))) \<and> length us = 6 \<and>
       (\<forall>i < 6. field_step path i (ws ! i) = Some (us ! i)))"
proof (cases "splitPath path")
  case Nil
  have "us = ws" if "length us = 6" "\<forall>i < 6. ws ! i = us ! i" for us
    using that assms by (auto simp: list_eq_iff_nth_eq)
  with Nil assms show ?thesis by (auto simp: clear_pass_def ClearByPath_def field_step_def)
next
  case (Cons part rest)
  let ?rec = "clearRecursive rest"
  have step: "kid_step ?rec (rest = []) part True RW (VStruct (zip swarm_fields ws)) i w = field_step path i w"
    if "i < 6" for i w
    using that assms Cons kid_step_put [of ws swarm_shape i]
    by (simp add: swarm_struct [OF assms] swarm_shape_kids field_step_def)
  have run: "kids_run ?rec (rest = []) part True RW (VStruct (zip swarm_fields ws)) us \<longleftrightarrow>
      length us = 6 \<and> (\<forall>i < 6. field_step path i (ws ! i) = Some (us ! i))" for us
    using assms step by (auto simp: kids_run_def)
  have "clear_pass path (VPtr t (Some (VStruct (zip swarm_fields ws)))) = Some v' \<longleftrightarrow>
      (\<exists>w'. erase (clear_struct ?rec (rest = []) part True RW (zip swarm_fields ws)) = Some w' \<and>
         v' = VPtr t (Some w'))"
    using Cons by (auto simp: clear_pass_def ClearByPath_def erase_case_Some erase_eq_Some)
  also have "\<dots> \<longleftrightarrow> (\<exists>us. v' = VPtr t (Some (VStruct (zip swarm_fields us))) \<and>
      length us = 6 \<and> (\<forall>i < 6. field_step path i (ws ! i) = Some (us ! i)))"
    unfolding clear_struct_run run using assms by auto
  finally show ?thesis .
qed

lemma field_step_lowers: "field_step path i w = Some u \<Longrightarrow> lowers w u"
  using kid_step_lowers [OF clearRecursive_only_lowers]
  by (auto simp: field_step_def intro: lowers.intros split: list.splits)

lemma lowers_slice_cases:
  assumes "lowers (VSlice t xs) u"
  shows "\<exists>ys. u = VSlice t ys \<and> (xs = None \<longrightarrow> ys = None)"
proof -
  from lowers_type [OF assms] obtain ys where u: "u = VSlice t ys" by (cases u) auto
  moreover have "ys = None" if "xs = None"
    using lowers_of_zero [OF assms, of "TSlice t"] that u by simp
  ultimately show ?thesis by blast
qed

lemma data_view_type: "type_of (data_view api h d) = data_type api"
  by (simp add: data_view_def data_type_def swarm_fields_def data_kids_def slice_val_def)

section \<open>Writing back\<close>

definition slot_of :: "group \<Rightarrow> nat" where
  "slot_of g = (case g of GNetworks \<Rightarrow> 2 | GNodes \<Rightarrow> 3 | GServices \<Rightarrow> 4 | GTasks \<Rightarrow> 5)"

lemma slot_of_simps [simp]:
  "slot_of GNetworks = 2" "slot_of GNodes = 3" "slot_of GServices = 4" "slot_of GTasks = 5" "slot_of g < 6"
  by (simp_all add: slot_of_def split: group.split)

lemma slot_cases: "i < 6 \<Longrightarrow> i = 0 \<or> i = 1 \<or> (\<exists>g. i = slot_of g)"
proof -
  assume "i < 6"
  then have "i = 0 \<or> i = 1 \<or> i = 2 \<or> i = 3 \<or> i = 4 \<or> i = 5" by arith
  then show ?thesis by (metis slot_of_simps(1-4))
qed

lemma data_kids_nth [simp]:
  "data_kids api h d ! 0 = VString (sd_ClusterName d)" "data_kids api h d ! Suc 0 = VBool (sd_AuthEnabled d)"
  "data_kids api h d ! slot_of g = slice_val api h d g"
  by (simp_all add: data_kids_def slot_of_def split: group.split)

text \<open>The array of group \<open>g\<close> after its slice was cleared to \<open>ys\<close>, and the reference to it.\<close>

definition new_arrays :: "(nat \<Rightarrow> goval list) \<Rightarrow> nat option \<Rightarrow> goval list option \<Rightarrow> (nat \<Rightarrow> goval list)" where
  "new_arrays arr ref ys = (case (ref, ys) of (Some a, Some xs) \<Rightarrow> arr(a := xs) | _ \<Rightarrow> arr)"

definition new_ref :: "nat option \<Rightarrow> goval list option \<Rightarrow> nat option" where
  "new_ref ref ys = (if ys = None then None else ref)"

lemma write_slice_eq:
  "write_slice g (VSlice t ys) hs =
     ((fst hs)(g := new_arrays (fst hs g) (sd_slice (snd hs) g) ys),
      (snd hs)\<lparr>sd_slice := (sd_slice (snd hs))(g := new_ref (sd_slice (snd hs) g) ys)\<rparr>)"
  by (cases ys; cases "sd_slice (snd hs) g")
    (simp_all add: write_slice_def new_arrays_def new_ref_def fun_upd_idem)

lemma write_back_eq:
  assumes "vs ! 0 = VString s" and "vs ! 1 = VBool b" and "\<And>g. vs ! slot_of g = VSlice (t g) (ys g)"
  shows "write_back vs (h, d) =
    (\<lambda>g. new_arrays (h g) (sd_slice d g) (ys g),
     \<lparr>sd_ClusterName = s, sd_AuthEnabled = b, sd_slice = (\<lambda>g. new_ref (sd_slice d g) (ys g))\<rparr>)"
proof -
  have vs: "vs ! 2 = VSlice (t GNetworks) (ys GNetworks)" "vs ! 3 = VSlice (t GNodes) (ys GNodes)"
    "vs ! 4 = VSlice (t GServices) (ys GServices)" "vs ! 5 = VSlice (t GTasks) (ys GTasks)"
    using assms(3) [of GNetworks] assms(3) [of GNodes] assms(3) [of GServices] assms(3) [of GTasks]
    by simp_all
  have all: "(\<forall>g. P g) \<longleftrightarrow> P GNetworks \<and> P GNodes \<and> P GServices \<and> P GTasks" for P
    by (metis group.exhaust)
  show ?thesis
    using assms(1,2)
    by (cases d) (simp add: write_back_def vs write_slice_eq write_header_def fun_eq_iff all)
qed

text \<open>What clearing by one path does to the snapshot, to the heap and to the references.\<close>

lemma clear_data_run:
  assumes run: "clear_data api p (h, d) = Inr (h', d')"
  shows "clear_pass p (data_ptr api h d) = Some (data_ptr api h' d')"
    and "field_step p (slot_of g) (slice_val api h d g) = Some (slice_val api h' d' g)"
    and "sd_slice d' g = sd_slice d g \<or> sd_slice d' g = None"
    and "h' g a \<noteq> h g a \<Longrightarrow> sd_slice d g = Some a \<and> sd_slice d' g = Some a"
proof -
  from run obtain v e where v: "ClearByPath (data_ptr api h d) p = Inr (v, e)"
    and wb: "write_back (kids (deref_val v)) (h, d) = (h', d')"
    by (auto simp: clear_data_def)
  then have pass: "clear_pass p (data_ptr api h d) = Some v" by (simp add: clear_pass_def)
  then obtain us where us: "v = VPtr (data_type api) (Some (VStruct (zip swarm_fields us)))"
    "length us = 6" and step: "\<And>i. i < 6 \<Longrightarrow> field_step p i (data_kids api h d ! i) = Some (us ! i)"
    using field_run [OF data_kids_length, of p _ api h d v] by (auto simp: data_ptr_def data_view_def)
  have low: "lowers (data_kids api h d ! i) (us ! i)" if "i < 6" for i
    using field_step_lowers [OF step [OF that]] .
  obtain s where s: "us ! 0 = VString s" using lowers_type [OF low [of 0]] by (cases "us ! 0") auto
  obtain b where b: "us ! 1 = VBool b" using lowers_type [OF low [of 1]] by (cases "us ! 1") auto
  have "\<exists>ys. us ! slot_of g = VSlice (elemType api g) ys \<and> (sd_slice d g = None \<longrightarrow> ys = None)" for g
    using lowers_slice_cases [OF low [of "slot_of g", unfolded data_kids_nth slice_val_def, OF slot_of_simps(5)]]
    by simp
  then obtain ys where ys: "\<And>g. us ! slot_of g = VSlice (elemType api g) (ys g)"
    "\<And>g. sd_slice d g = None \<longrightarrow> ys g = None" by metis
  have kids: "kids (deref_val v) = us" using us by simp
  have eq: "h' = (\<lambda>g. new_arrays (h g) (sd_slice d g) (ys g))"
    "d' = \<lparr>sd_ClusterName = s, sd_AuthEnabled = b, sd_slice = (\<lambda>g. new_ref (sd_slice d g) (ys g))\<rparr>"
    using wb write_back_eq [OF s b ys(1), of h d] unfolding kids by simp_all
  have slice: "slice_val api h' d' g = us ! slot_of g" for g
    using ys(2) [of g]
    by (cases "ys g"; cases "sd_slice d g") (simp_all add: eq ys(1) slice_val_def new_ref_def new_arrays_def)
  show "field_step p (slot_of g) (slice_val api h d g) = Some (slice_val api h' d' g)"
    using step [of "slot_of g"] by (simp add: slice)
  show "sd_slice d' g = sd_slice d g \<or> sd_slice d' g = None" by (simp add: eq new_ref_def)
  show "h' g a \<noteq> h g a \<Longrightarrow> sd_slice d g = Some a \<and> sd_slice d' g = Some a"
    by (auto simp: eq new_ref_def new_arrays_def split: option.splits if_splits)
  have "data_kids api h' d' ! i = us ! i" if "i < 6" for i
  proof -
    from slot_cases [OF that] consider "i = 0" | "i = 1" | g where "i = slot_of g" by blast
    then show ?thesis using s b slice by cases (simp_all add: eq)
  qed
  then have "data_kids api h' d' = us" using us(2) by (auto simp: list_eq_iff_nth_eq)
  then have view: "data_view api h' d' = VStruct (zip swarm_fields us)" by (simp add: data_view_def)
  with pass us(1) view show "clear_pass p (data_ptr api h d) = Some (data_ptr api h' d')"
    by (simp add: data_ptr_def)
qed

section \<open>Shared slices\<close>

text \<open>A snapshot on which the paths have nothing left to do.\<close>

definition settled :: "'o api_view \<Rightarrow> string list \<Rightarrow> heap \<Rightarrow> swarm_data \<Rightarrow> bool" where
  "settled api paths h d \<longleftrightarrow> (\<forall>p \<in> set paths. clear_pass p (data_ptr api h d) = Some (data_ptr api h d))"

lemma settled_field:
  assumes "settled api paths h d" and "p \<in> set paths"
  shows "field_step p (slot_of g) (slice_val api h d g) = Some (slice_val api h d g)"
proof -
  from assms have pass: "clear_pass p (VPtr (data_type api) (Some (VStruct (zip swarm_fields (data_kids api h d))))) =
      Some (data_ptr api h d)"
    by (simp add: settled_def data_ptr_def data_view_def)
  from field_run [OF data_kids_length, THEN iffD1, OF pass]
  obtain us where us: "VStruct (zip swarm_fields us) = data_view api h d" "length us = 6"
    and step: "\<And>i. i < 6 \<Longrightarrow> field_step p i (data_kids api h d ! i) = Some (us ! i)"
    unfolding data_ptr_def by auto
  from us have "map snd (zip swarm_fields us) = map snd (zip swarm_fields (data_kids api h d))"
    by (simp add: data_view_def)
  with us(2) have "us = data_kids api h d" by simp
  with step [of "slot_of g"] show ?thesis by simp
qed

text \<open>Clearing a new snapshot leaves a settled one as it is, whatever slices they share.\<close>

lemma clear_data_shared:
  assumes run: "clear_data api p (h, d) = Inr (h', d')" and old: "settled api paths h prev"
    and p: "p \<in> set paths"
  shows "data_view api h' prev = data_view api h prev"
proof -
  have "slice_val api h' prev g = slice_val api h prev g" for g
  proof (rule ccontr)
    assume diff: "slice_val api h' prev g \<noteq> slice_val api h prev g"
    then obtain a where a: "sd_slice prev g = Some a" and "h' g a \<noteq> h g a"
      by (cases "sd_slice prev g") (auto simp: slice_val_def)
    with clear_data_run(4) [OF run] have d: "sd_slice d g = Some a" "sd_slice d' g = Some a" by blast+
    then have "slice_val api h d g = slice_val api h prev g" using a by (simp add: slice_val_def)
    with clear_data_run(2) [OF run, of g] settled_field [OF old p, of g]
    have "slice_val api h' d' g = slice_val api h prev g" by simp
    moreover have "slice_val api h' d' g = slice_val api h' prev g" using a d by (simp add: slice_val_def)
    ultimately show False using diff by simp
  qed
  then show ?thesis by (simp add: data_view_def data_kids_def)
qed

lemma settled_cong: "data_view api h' d = data_view api h d \<Longrightarrow> settled api paths h' d = settled api paths h d"
  by (simp add: settled_def data_ptr_def)

lemma clear_all_shared:
  assumes "clear_all api ps (h, d) = Inr (h', d')" and "settled api paths h prev" and "set ps \<subseteq> set paths"
  shows "data_view api h' prev = data_view api h prev"
  using assms
proof (induction ps arbitrary: h d)
  case Nil
  then show ?case by simp
next
  case (Cons p ps)
  then obtain h1 d1 where run: "clear_data api p (h, d) = Inr (h1, d1)"
    and rest: "clear_all api ps (h1, d1) = Inr (h', d')" by auto
  have keep: "data_view api h1 prev = data_view api h prev"
    by (rule clear_data_shared [OF run Cons.prems(2)]) (use Cons.prems(3) in simp)
  then have "settled api paths h1 prev" using Cons.prems(2) settled_cong by blast
  with Cons.IH [OF rest] Cons.prems(3) keep show ?case by simp
qed

lemma clear_all_passes:
  "clear_all api ps (h, d) = Inr (h', d') \<Longrightarrow>
   path_clearing.passes ps (data_ptr api h d) = Some (data_ptr api h' d')"
  by (induction ps arbitrary: h d) (auto simp: clear_data_run(1))

lemma clear_all_refs:
  "clear_all api ps (h, d) = Inr (h', d') \<Longrightarrow> sd_slice d' g = sd_slice d g \<or> sd_slice d' g = None"
proof (induction ps arbitrary: h d)
  case (Cons p ps)
  then obtain h1 d1 where "clear_data api p (h, d) = Inr (h1, d1)"
    and rest: "clear_all api ps (h1, d1) = Inr (h', d')" by auto
  then show ?case using clear_data_run(3) [of api p h d h1 d1 g] Cons.IH [OF rest] by auto
qed simp

text \<open>After the passes the snapshot is settled, and everything the paths address is zero.\<close>

lemma clear_all_settled:
  assumes "clear_all api ps (h, d) = Inr (h', d')" and "wf_val (data_ptr api h d)"
  shows "settled api ps h' d'"
  unfolding settled_def
  using path_clearing.passes_establish [OF assms(2) clear_all_passes [OF assms(1)]] by blast

lemma settled_cleared: "settled api ps h d \<Longrightarrow> p \<in> set ps \<Longrightarrow> cleared (splitPath p) (data_ptr api h d)"
  unfolding settled_def clear_pass_def ClearByPath_def by (blast intro: clearRecursive_cleared)

section \<open>Types in the heap\<close>

text \<open>What \<open>reflect\<close> guarantees: a value has the type it is declared with.\<close>

definition views_ok :: "'o api_view \<Rightarrow> bool" where
  "views_ok api \<longleftrightarrow>
     (\<forall>x. wf_val (viewNetwork api x) \<and> type_of (viewNetwork api x) = elemType api GNetworks) \<and>
     (\<forall>x. wf_val (viewNode api x) \<and> type_of (viewNode api x) = elemType api GNodes) \<and>
     (\<forall>x. wf_val (viewService api x) \<and> type_of (viewService api x) = elemType api GServices) \<and>
     (\<forall>x. wf_val (viewTask api x) \<and> type_of (viewTask api x) = elemType api GTasks)"

definition heap_ok :: "'o api_view \<Rightarrow> heap \<Rightarrow> bool" where
  "heap_ok api h \<longleftrightarrow> (\<forall>g a. wf_val (VSlice (elemType api g) (Some (h g a))))"

lemma heap_ok_slice: "heap_ok api h \<Longrightarrow> wf_val (slice_val api h d g)"
  by (cases "sd_slice d g") (auto simp: heap_ok_def slice_val_def)

lemma heap_ok_data: "heap_ok api h \<Longrightarrow> wf_val (data_ptr api h d)"
  using heap_ok_slice [of api h d]
  by (simp add: data_ptr_def data_view_type) (simp add: data_view_def data_kids_def swarm_fields_def)

lemma wf_data_slice:
  assumes "wf_val (data_ptr api h d)" and "sd_slice d g = Some a"
  shows "wf_val (VSlice (elemType api g) (Some (h g a)))"
  using assms
  by (cases g) (auto simp: data_ptr_def data_view_def data_kids_def slice_val_def swarm_fields_def)

lemma clear_data_heap_ok:
  assumes run: "clear_data api p (h, d) = Inr (h', d')" and ok: "heap_ok api h"
  shows "heap_ok api h'"
proof -
  have wf: "wf_val (data_ptr api h' d')"
    by (rule path_clearing.ok_pass [OF heap_ok_data [OF ok] clear_data_run(1) [OF run]])
  have "wf_val (VSlice (elemType api g) (Some (h' g a)))" for g a
  proof (cases "h' g a = h g a")
    case True
    then show ?thesis using ok unfolding heap_ok_def by metis
  next
    case False
    then show ?thesis using clear_data_run(4) [OF run] wf_data_slice [OF wf] by blast
  qed
  then show ?thesis unfolding heap_ok_def by blast
qed

lemma clear_all_heap_ok: "clear_all api ps (h, d) = Inr (h', d') \<Longrightarrow> heap_ok api h \<Longrightarrow> heap_ok api h'"
  by (induction ps arbitrary: h d) (auto intro: clear_data_heap_ok)

section \<open>The invariant of the loop\<close>

text \<open>A frame that may leave the process: the encoding of a snapshot that all paths have cleared.\<close>

definition clean_frame :: "'o api_view \<Rightarrow> (goval \<Rightarrow> string option) \<Rightarrow> config \<Rightarrow> string \<Rightarrow> bool" where
  "clean_frame api marshal c f \<longleftrightarrow>
     (\<exists>v. marshal v = Some f \<and> type_of v = data_type api \<and>
        (\<forall>p \<in> set (SensitiveDataPaths c). cleared (splitPath p) (VPtr (data_type api) (Some v))))"

definition last_ok ::
  "'o api_view \<Rightarrow> (goval \<Rightarrow> string option) \<Rightarrow> config \<Rightarrow> heap \<Rightarrow> nat \<Rightarrow> string list \<Rightarrow> swarm_data \<Rightarrow> bool" where
  "last_ok api marshal c h n frames d \<longleftrightarrow>
     (\<forall>g a. sd_slice d g = Some a \<longrightarrow> a < n) \<and> settled api (SensitiveDataPaths c) h d \<and>
     frames \<noteq> [] \<and> marshal (data_view api h d) = Some (last frames)"

definition inspect_inv :: "'o api_view \<Rightarrow> (goval \<Rightarrow> string option) \<Rightarrow> config \<Rightarrow> 'o inspector \<Rightarrow> bool" where
  "inspect_inv api marshal c st \<longleftrightarrow>
     heap_ok api (heap st) \<and>
     (\<forall>g a. current st g = Some a \<longrightarrow> a < next_addr st) \<and>
     (outbox st \<noteq> [] \<longrightarrow> haveStructural st \<and> haveTasks st) \<and>
     (lastPublished st = None \<longrightarrow> outbox st = []) \<and>
     (\<forall>d. lastPublished st = Some d \<longrightarrow> last_ok api marshal c (heap st) (next_addr st) (outbox st) d) \<and>
     (\<forall>f \<in> set (outbox st). clean_frame api marshal c f)"

lemma data_view_fresh:
  "(\<And>g a. sd_slice d g = Some a \<Longrightarrow> h' g a = h g a) \<Longrightarrow> data_view api h' d = data_view api h d"
  by (simp add: data_view_def data_kids_def slice_val_def map_option_case split: option.split)

lemma last_ok_store:
  assumes "last_ok api marshal c h n frames d" and "\<And>g a. a < n \<Longrightarrow> h' g a = h g a" and "n \<le> n'"
  shows "last_ok api marshal c h' n' frames d"
proof -
  have "data_view api h' d = data_view api h d"
    using assms(1,2) by (intro data_view_fresh) (auto simp: last_ok_def)
  with assms settled_cong [of api h' d h] show ?thesis
    unfolding last_ok_def by (metis order_less_le_trans)
qed

lemma store_slice_inv:
  assumes inv: "inspect_inv api marshal c st"
    and ok: "\<And>ys. xs = Some ys \<Longrightarrow> wf_val (VSlice (elemType api g) (Some ys))"
  shows "inspect_inv api marshal c (store_slice g xs st)"
proof (cases xs)
  case None
  with inv show ?thesis by (simp add: inspect_inv_def store_slice_def)
next
  case (Some ys)
  let ?st = "store_slice g xs st"
  have h: "heap ?st g' a = (if g' = g \<and> a = next_addr st then ys else heap st g' a)" for g' a
    by (simp add: store_slice_def Some)
  have "heap_ok api (heap ?st)"
    unfolding heap_ok_def h using inv ok [OF Some] by (simp add: inspect_inv_def heap_ok_def)
  moreover have "last_ok api marshal c (heap ?st) (next_addr ?st) (outbox ?st) d"
    if "lastPublished ?st = Some d" for d
    using inv that last_ok_store [of api marshal c "heap st" "next_addr st" "outbox st" d "heap ?st"] h
    by (simp add: inspect_inv_def store_slice_def Some)
  ultimately show ?thesis
    using inv by (auto simp: inspect_inv_def store_slice_def Some less_Suc_eq)
qed

lemma refreshStructural_inv:
  assumes api: "views_ok api" and inv: "inspect_inv api marshal c st"
    and run: "refreshStructural api c nA sA nwA st = Inr (ok, st')"
  shows "inspect_inv api marshal c st'"
proof -
  have wf: "wf_val (VSlice (elemType api GNodes) (Some (map (viewNode api) ns)))"
    "wf_val (VSlice (elemType api GServices) (Some (map (viewService api) ss)))"
    "wf_val (VSlice (elemType api GNetworks) (Some (map (viewNetwork api) nws)))" for ns ss nws
    using api by (auto simp: views_ok_def)
  have flag: "inspect_inv api marshal c (s\<lparr>haveStructural := True\<rparr>)" if "inspect_inv api marshal c s" for s
    using that by (simp add: inspect_inv_def)
  have new: "inspect_inv api marshal c
      ((store_slice GNodes (Some (map (viewNode api) ns)) (store_slice GServices (Some (map (viewService api) ss))
        (store_slice GNetworks (Some (map (viewNetwork api) nws)) st)))\<lparr>haveStructural := True\<rparr>)" for ns ss nws
    by (intro flag store_slice_inv inv) (use wf in \<open>simp_all del: wf_val.simps\<close>)
  from run obtain s where "getServicesInfo c sA = Inr s" by (auto simp: refreshStructural_def)
  with run inv new show ?thesis
    by (cases "getNodesInfo c nA"; cases s; cases "getNetworksInfo c nwA")
      (auto simp: refreshStructural_def)
qed

lemma refreshTasks_inv:
  assumes api: "views_ok api" and inv: "inspect_inv api marshal c st"
    and run: "refreshTasks api c now orders tA st = Inr (ok, st')"
  shows "inspect_inv api marshal c st'"
proof -
  have wf: "wf_val (VSlice (elemType api GTasks) (Some (map (viewTask api) ts)))" for ts
    using api by (auto simp: views_ok_def)
  have cache: "inspect_inv api marshal c (st\<lparr>stoppedTaskCache := cache\<rparr>)" for cache
    using inv by (simp add: inspect_inv_def)
  have flag: "inspect_inv api marshal c (s\<lparr>haveTasks := True\<rparr>)" if "inspect_inv api marshal c s" for s
    using that by (simp add: inspect_inv_def)
  have new: "inspect_inv api marshal c
      ((store_slice GTasks (if ts = [] then None else Some (map (viewTask api) ts))
        (st\<lparr>stoppedTaskCache := cache\<rparr>))\<lparr>haveTasks := True\<rparr>)" for ts cache
    by (intro flag store_slice_inv cache) (use wf in \<open>auto simp del: wf_val.simps split: if_splits\<close>)
  show ?thesis
    using run cache new by (auto simp: refreshTasks_def split: option.splits)
qed

text \<open>The three ways in which \<open>publish\<close> ends once both groups have been loaded.\<close>

lemma publish_cases:
  assumes "publish api marshal c st = Inr st'"
  obtains (unloaded) "st' = st" "\<not> haveStructural st \<or> \<not> haveTasks st"
  | (loaded) h d where "haveStructural st" "haveTasks st"
      "clear_all api (SensitiveDataPaths c) (heap st,
        \<lparr>sd_ClusterName = ClusterName c, sd_AuthEnabled = AuthEnabled c, sd_slice = current st\<rparr>) = Inr (h, d)"
      "st' = st\<lparr>heap := h\<rparr> \<and>
         (marshal (data_view api h d) = None \<or>
          (\<exists>prev. lastPublished st = Some prev \<and> deep_eq (data_view api h d) (data_view api h prev))) \<or>
       (\<exists>f. marshal (data_view api h d) = Some f \<and>
          st' = st\<lparr>heap := h, lastPublished := Some d, outbox := outbox st @ [f]\<rparr> \<and>
          (\<forall>prev. lastPublished st = Some prev \<longrightarrow> \<not> deep_eq (data_view api h d) (data_view api h prev)))"
proof (cases "haveStructural st \<and> haveTasks st")
  case False
  with assms unloaded show ?thesis by (auto simp: publish_def)
next
  case True
  with assms obtain h d where run: "clear_all api (SensitiveDataPaths c) (heap st,
      \<lparr>sd_ClusterName = ClusterName c, sd_AuthEnabled = AuthEnabled c, sd_slice = current st\<rparr>) = Inr (h, d)"
    by (auto simp: publish_def)
  show ?thesis
    by (rule loaded [OF _ _ run])
      (use True assms run in \<open>auto simp: publish_def Let_def split: option.splits if_splits\<close>)
qed

lemma publish_inv:
  assumes inv: "inspect_inv api marshal c st" and run: "publish api marshal c st = Inr st'"
  shows "inspect_inv api marshal c st'"
  using run
proof (cases rule: publish_cases)
  case unloaded
  with inv show ?thesis by simp
next
  case (loaded h d)
  let ?d0 = "\<lparr>sd_ClusterName = ClusterName c, sd_AuthEnabled = AuthEnabled c, sd_slice = current st\<rparr>"
  have hok: "heap_ok api (heap st)" and refs: "\<And>g a. current st g = Some a \<Longrightarrow> a < next_addr st"
    using inv by (simp_all add: inspect_inv_def)
  have hok': "heap_ok api h" by (rule clear_all_heap_ok [OF loaded(3) hok])
  have set: "settled api (SensitiveDataPaths c) h d"
    by (rule clear_all_settled [OF loaded(3) heap_ok_data [OF hok]])
  have drefs: "a < next_addr st" if "sd_slice d g = Some a" for g a
    using clear_all_refs [OF loaded(3), of g] that refs by auto
  have keep: "last_ok api marshal c h (next_addr st) (outbox st) prev" if "lastPublished st = Some prev" for prev
  proof -
    have old: "last_ok api marshal c (heap st) (next_addr st) (outbox st) prev"
      using inv that by (simp add: inspect_inv_def)
    then have "data_view api h prev = data_view api (heap st) prev"
      by (intro clear_all_shared [OF loaded(3), of "SensitiveDataPaths c"]) (simp_all add: last_ok_def)
    with old settled_cong [of api h prev "heap st"] show ?thesis by (simp add: last_ok_def)
  qed
  have clean: "clean_frame api marshal c f" if "marshal (data_view api h d) = Some f" for f
    using that settled_cleared [OF set]
    by (auto simp: clean_frame_def data_view_type data_ptr_def intro!: exI [of _ "data_view api h d"])
  from loaded(4) consider (same) "st' = st\<lparr>heap := h\<rparr>"
    | (sent) f where "marshal (data_view api h d) = Some f"
        "st' = st\<lparr>heap := h, lastPublished := Some d, outbox := outbox st @ [f]\<rparr>" by blast
  then show ?thesis
  proof cases
    case same
    then show ?thesis using inv hok' keep by (simp add: inspect_inv_def)
  next
    case (sent f)
    note f = sent(1) and st' = sent(2)
    have "last_ok api marshal c h (next_addr st) (outbox st @ [f]) d"
      using f set drefs by (simp add: last_ok_def)
    then show ?thesis using inv hok' loaded(1,2) clean [OF f] by (simp add: inspect_inv_def st')
  qed
qed

lemma new_inspector_inv: "inspect_inv api marshal c new_inspector"
  by (simp add: inspect_inv_def new_inspector_def heap_ok_def)

lemma inspect_start_inv: "views_ok api \<Longrightarrow> inspect_start api marshal c st \<Longrightarrow> inspect_inv api marshal c st"
  by (elim inspect_start.cases)
    (meson publish_inv refreshTasks_inv refreshStructural_inv new_inspector_inv)

lemma inspect_step_inv:
  "views_ok api \<Longrightarrow> inspect_inv api marshal c st \<Longrightarrow> inspect_step api marshal c st st' \<Longrightarrow>
   inspect_inv api marshal c st'"
  by (elim inspect_step.cases) (meson publish_inv refreshTasks_inv refreshStructural_inv)+

text \<open>The states of the polling loop; an API whose values have their declared types.\<close>

definition inspect_reachable :: "'o api_view \<Rightarrow> (goval \<Rightarrow> string option) \<Rightarrow> config \<Rightarrow> 'o inspector \<Rightarrow> bool" where
  "inspect_reachable api marshal c st \<longleftrightarrow>
     (\<exists>st0. inspect_start api marshal c st0 \<and> (inspect_step api marshal c)\<^sup>*\<^sup>* st0 st)"

interpretation inspect_system: invariant_system
  "\<lambda>s. views_ok api \<and> inspect_start api marshal c s" "\<lambda>s t. views_ok api \<and> inspect_step api marshal c s t"
  "inspect_inv api marshal c"
  for api marshal c
  by unfold_locales (auto intro: inspect_start_inv inspect_step_inv)

lemma inspect_reachable_inv:
  assumes "views_ok api" and "inspect_reachable api marshal c st"
  shows "inspect_inv api marshal c st"
proof -
  from assms(2) obtain st0 where "inspect_start api marshal c st0" and "(inspect_step api marshal c)\<^sup>*\<^sup>* st0 st"
    by (auto simp: inspect_reachable_def)
  with assms(1) show ?thesis using inspect_system.reachable_inv [of api marshal c st0 st] by simp
qed

end
