(* ===== verification/InspectProps.thy ===== *)
theory InspectProps
  imports InspectInv
begin

text \<open>
  What the polling loop promises: only snapshots that every sensitive path has cleared leave it, the
  snapshot kept for change detection keeps its bytes although its slices are shared and written
  again, nothing is published before all groups have been loaded, a frame is sent exactly on a
  change, a failed fetch changes nothing, and publishing never panics on safe types.
\<close>

section \<open>Change detection\<close>

lemma same_list_refl: "(\<And>v. v \<in> set vs \<Longrightarrow> deep_eq v v) \<Longrightarrow> same_list (map deep_eq vs) vs"
  by (simp add: same_list_def list_all2_conv_all_nth)

lemma same_map_refl:
  assumes "distinct (map fst es)" and "\<And>e. e \<in> set es \<Longrightarrow> deep_eq (snd e) (snd e)"
  shows "same_map (map (map_prod id deep_eq) es) es"
proof -
  have "map_of es (fst e) = Some (snd e)" if "e \<in> set es" for e
    using map_of_is_SomeI [OF assms(1), of "fst e" "snd e"] that by simp
  with assms(2) show ?thesis by (simp add: same_map_def)
qed

lemma deep_eq_refl: "wf_val v \<Longrightarrow> deep_eq v v"
proof (induction v)
  case (VPtr t p)
  then show ?case by (cases p) auto
next
  case (VSlice t vs)
  then show ?case by (cases vs) (auto intro: same_list_refl)
next
  case (VArray t vs)
  then show ?case by (auto intro: same_list_refl)
next
  case (VMap s t m)
  then show ?case by (cases m) (auto intro!: same_map_refl simp: snds.simps)
next
  case (VStruct fs)
  then show ?case by (auto simp: list_all2_conv_all_nth snds.simps)
qed simp_all

section \<open>Properties\<close>

text \<open>
  Every frame that the inspector hands to the hub, at any time and after any answers of the
  Docker API, is the encoding of a \<open>SwarmData\<close> value in which everything that any of the configured
  sensitive paths addresses is zero.
\<close>

theorem published_frames_clean:
  assumes "views_ok api" and "inspect_reachable api marshal c st" and "f \<in> set (outbox st)"
  shows "\<exists>v. marshal v = Some f \<and> type_of v = data_type api \<and>
    (\<forall>p \<in> set (SensitiveDataPaths c). cleared (splitPath p) (VPtr (data_type api) (Some v)))"
  using inspect_reachable_inv [OF assms(1,2)] assms(3) by (simp add: inspect_inv_def clean_frame_def)


text \<open>
  No partial view is ever published: a frame has been sent only when the nodes, services and
  networks as well as the tasks have been loaded at least once.
\<close>

theorem no_partial_view:
  assumes "views_ok api" and "inspect_reachable api marshal c st" and "outbox st \<noteq> []"
  shows "haveStructural st \<and> haveTasks st \<and> lastPublished st \<noteq> None"
  using inspect_reachable_inv [OF assms(1,2)] assms(3) by (auto simp: inspect_inv_def)

text \<open>
  C11: publishing sends at most one frame, and exactly on a change: once everything is loaded, the
  frame of the cleared snapshot is sent when there is no previous snapshot or it is not deeply
  equal to it (provided that it can be encoded), and nothing is sent when it is deeply equal, which
  it is in particular when it is the same value.
\<close>

theorem publish_on_change:
  assumes "views_ok api" and "inspect_reachable api marshal c st" and "publish api marshal c st = Inr st'"
    and "haveStructural st" and "haveTasks st"
  shows "\<exists>d. clear_all api (SensitiveDataPaths c) (heap st, \<lparr>sd_ClusterName = ClusterName c,
      sd_AuthEnabled = AuthEnabled c, sd_slice = current st\<rparr>) = Inr (heap st', d) \<and>
    (let v = data_view api (heap st') d;
         changed = (\<forall>prev. lastPublished st = Some prev \<longrightarrow> \<not> deep_eq v (data_view api (heap st') prev))
     in outbox st' = outbox st @ (if changed then (case marshal v of None \<Rightarrow> [] | Some f \<Rightarrow> [f]) else []) \<and>
        lastPublished st' = (if changed \<and> marshal v \<noteq> None then Some d else lastPublished st) \<and>
        (\<forall>prev. lastPublished st = Some prev \<and> v = data_view api (heap st') prev \<longrightarrow> \<not> changed))"
  using assms(3)
proof (cases rule: publish_cases)
  case unloaded
  with assms(4,5) show ?thesis by simp
next
  case (loaded h d)
  have "heap_ok api (heap st)"
    using inspect_reachable_inv [OF assms(1,2)] by (simp add: inspect_inv_def)
  then have "wf_val (data_view api h d)"
    using heap_ok_data [OF clear_all_heap_ok [OF loaded(3)], of d] by (simp add: data_ptr_def)
  then have refl: "deep_eq (data_view api h d) (data_view api h d)" by (rule deep_eq_refl)
  have h: "heap st' = h" using loaded(4) by auto
  show ?thesis
    using loaded(3,4) refl unfolding h Let_def
    by (intro exI [of _ d]) (auto split: option.splits)
qed

text \<open>
  A failed fetch changes nothing: when the Docker API fails for nodes, services or networks, the
  structural refresh reports failure and all three groups keep their previous values, and likewise
  for the tasks and their cache; the loop then does not publish.
\<close>

theorem failed_refresh_keeps_state:
  assumes "refreshStructural api c nA sA nwA st = Inr (ok, s1)"
    and "refreshTasks api c now orders tA st = Inr (ok', s2)"
  shows "(ok \<longleftrightarrow> nA \<noteq> None \<and> sA \<noteq> None \<and> nwA \<noteq> None) \<and> (\<not> ok \<longrightarrow> s1 = st) \<and>
    (ok' \<longleftrightarrow> tA \<noteq> None) \<and> (\<not> ok' \<longrightarrow> s2 = st)"
proof -
  have "(ok \<longleftrightarrow> nA \<noteq> None \<and> sA \<noteq> None \<and> nwA \<noteq> None) \<and> (\<not> ok \<longrightarrow> s1 = st)"
    using assms(1)
    by (cases nA; cases sA; cases nwA)
      (auto simp: refreshStructural_def getServicesInfo_def getNodesInfo_def getNetworksInfo_def)
  moreover have "(ok' \<longleftrightarrow> tA \<noteq> None) \<and> (\<not> ok' \<longrightarrow> s2 = st)"
  proof (cases tA)
    case None
    then show ?thesis using assms(2) by (auto simp: refreshTasks_def getTasksInfo_def)
  next
    case (Some ts)
    then show ?thesis using assms(2)
      by (cases orders) (auto simp: refreshTasks_def getTasksInfo_eq)
  qed
  ultimately show ?thesis by blast
qed

lemma clear_data_total:
  assumes "heap_ok api h" and "path_safe (splitPath p) False (TPtr (data_type api))"
  shows "\<exists>h' d'. clear_data api p (h, d) = Inr (h', d')"
proof -
  have "\<exists>v e. ClearByPath (data_ptr api h d) p = Inr (v, e)"
    by (rule ClearByPath_returns [OF heap_ok_data [OF assms(1)]])
      (use assms(2) in \<open>simp add: data_ptr_def\<close>)
  then obtain v e where "ClearByPath (data_ptr api h d) p = Inr (v, e)" by blast
  then show ?thesis by (cases "write_back (kids (deref_val v)) (h, d)") (simp add: clear_data_def)
qed

lemma clear_all_total:
  assumes "heap_ok api h" and "\<forall>p \<in> set ps. path_safe (splitPath p) False (TPtr (data_type api))"
  shows "\<exists>hd'. clear_all api ps (h, d) = Inr hd'"
  using assms
proof (induction ps arbitrary: h d)
  case (Cons p ps)
  from clear_data_total [OF Cons.prems(1), of p d] Cons.prems(2) obtain h' d' where
    run: "clear_data api p (h, d) = Inr (h', d')" by auto
  with Cons.IH [OF clear_data_heap_ok [OF run Cons.prems(1)], of d'] Cons.prems(2) show ?case by simp
qed simp

lemma publish_total:
  assumes "inspect_inv api marshal c st"
    and "\<forall>p \<in> set (SensitiveDataPaths c). path_safe (splitPath p) False (TPtr (data_type api))"
  shows "\<exists>st'. publish api marshal c st = Inr st'"
proof -
  from assms(1) have "heap_ok api (heap st)" by (simp add: inspect_inv_def)
  from clear_all_total [OF this assms(2)] obtain hd' where
    "clear_all api (SensitiveDataPaths c) (heap st, \<lparr>sd_ClusterName = ClusterName c,
       sd_AuthEnabled = AuthEnabled c, sd_slice = current st\<rparr>) = Inr hd'" by blast
  then show ?thesis by (cases hd') (simp add: publish_def)
qed

text \<open>
  Publishing always returns: when every configured path is safe for the type of \<open>SwarmData\<close> (it
  applies \<open>*\<close> to no struct with unexported fields and does not go on into a struct stored directly in
  a map), no snapshot makes \<open>publish\<close> panic.
\<close>

theorem publish_returns:
  assumes "views_ok api" and "inspect_reachable api marshal c st"
    and "\<forall>p \<in> set (SensitiveDataPaths c). path_safe (splitPath p) False (TPtr (data_type api))"
  shows "\<exists>st'. publish api marshal c st = Inr st'"
  using inspect_reachable_inv [OF assms(1,2)] assms(3) by (rule publish_total)

section \<open>A run of the loop, concretely\<close>

text \<open>A node has an identifier and a secret; the other groups are empty.\<close>

definition demo_node_view :: "unit node \<Rightarrow> goval" where
  "demo_node_view n =
     VStruct [(json_field ''ID'' ''ID'', VString (nd_ID n)), (json_field ''Key'' ''key'', VString ''secret'')]"

definition demo_api :: "unit api_view" where
  "demo_api =
     \<lparr>viewNetwork = (\<lambda>_. VString []), viewNode = demo_node_view, viewService = (\<lambda>_. VString []),
      viewTask = (\<lambda>_. VString []),
      elemType = (\<lambda>g. if g = GNodes
        then TStruct [(json_field ''ID'' ''ID'', TString), (json_field ''Key'' ''key'', TString)] else TString)\<rparr>"

definition demo_conf :: config where
  "demo_conf = example_config\<lparr>
     AuthEnabled := True,
     OAuthConfig := (OAuthConfig example_config)\<lparr>
       Issuer := ''https://idp'', AuthURL := ''https://idp/a'', TokenURL := ''https://idp/t''\<rparr>,
     SensitiveDataPaths := builtinSensitivePaths @ [''nodes.*.key'']\<rparr>"

definition demo_marshal :: "goval \<Rightarrow> string option" where
  "demo_marshal v = Some ''frame''"

lemma demo_views_ok: "views_ok demo_api"
  by (simp add: views_ok_def demo_api_def demo_node_view_def)

lemma demo_safe: "\<forall>p \<in> set (SensitiveDataPaths demo_conf). path_safe (splitPath p) False (TPtr (data_type demo_api))"
  by code_simp

definition demo_node :: "unit node" where
  "demo_node = \<lparr>nd_ID = ''n1'', nd_Labels = None, nd_rest = ()\<rparr>"

definition demo_loaded :: "unit inspector" where
  "demo_loaded =
     (store_slice GTasks None (store_slice GNodes (Some [demo_node_view demo_node])
       (store_slice GServices (Some []) (store_slice GNetworks (Some []) new_inspector))))
       \<lparr>haveStructural := True, haveTasks := True\<rparr>"

definition demo_refs :: "group \<Rightarrow> nat option" where
  "demo_refs g = (case g of GNetworks \<Rightarrow> Some 0 | GServices \<Rightarrow> Some 1 | GNodes \<Rightarrow> Some 2 | GTasks \<Rightarrow> None)"

definition demo_data :: swarm_data where
  "demo_data = \<lparr>sd_ClusterName = [], sd_AuthEnabled = True, sd_slice = demo_refs\<rparr>"

definition demo_heap :: "string \<Rightarrow> heap" where
  "demo_heap key g a =
     (if g = GNodes \<and> a = 2 then
        [VStruct [(json_field ''ID'' ''ID'', VString ''n1''), (json_field ''Key'' ''key'', VString key)]]
      else [])"

lemma demo_loaded_eq:
  "demo_loaded =
     \<lparr>heap = demo_heap ''secret'', next_addr = 3, current = demo_refs, haveStructural = True, haveTasks = True,
      lastPublished = None, stoppedTaskCache = Map.empty, outbox = []\<rparr>"
  by (simp add: demo_loaded_def store_slice_def new_inspector_def demo_node_view_def demo_node_def fun_eq_iff
      demo_heap_def demo_refs_def split: group.split)

lemma demo_clear_path:
  "ClearByPath (data_ptr demo_api (demo_heap ''secret'') demo_data) ''nodes.*.key'' =
     Inr (data_ptr demo_api (demo_heap []) demo_data, None)"
  by code_simp

lemma demo_clear_builtin:
  "list_all (\<lambda>p. go_map fst (ClearByPath (data_ptr demo_api (demo_heap ''secret'') demo_data) p) =
     Inr (data_ptr demo_api (demo_heap ''secret'') demo_data)) builtinSensitivePaths"
  by code_simp

lemma demo_clear_to:
  assumes "go_map fst (ClearByPath (data_ptr demo_api (demo_heap ''secret'') demo_data) p) =
    Inr (data_ptr demo_api (demo_heap key) demo_data)"
  shows "clear_data demo_api p (demo_heap ''secret'', demo_data) = Inr (demo_heap key, demo_data)"
proof -
  let ?vs = "data_kids demo_api (demo_heap key) demo_data"
  have kids: "kids (deref_val (data_ptr demo_api (demo_heap key) demo_data)) = ?vs"
    by (simp add: data_ptr_def data_view_def)
  have "write_back ?vs (demo_heap ''secret'', demo_data) = (demo_heap key, demo_data)"
    by (subst write_back_eq [where s = "[]" and b = True and t = "elemType demo_api"
          and ys = "\<lambda>g. map_option (demo_heap key g) (demo_refs g)"])
      (auto simp: demo_data_def slice_val_def new_arrays_def new_ref_def demo_refs_def demo_heap_def fun_eq_iff
        split: group.split)
  with kids assms show ?thesis
    by (cases "ClearByPath (data_ptr demo_api (demo_heap ''secret'') demo_data) p") (auto simp: clear_data_def)
qed

lemma clear_all_last:
  assumes "list_all (\<lambda>p. clear_data api p hs = Inr hs) ps" and "clear_data api q hs = Inr hs'"
  shows "clear_all api (ps @ [q]) hs = Inr hs'"
  using assms by (induction ps) simp_all

lemma demo_clear:
  "clear_all demo_api (SensitiveDataPaths demo_conf) (demo_heap ''secret'', demo_data) = Inr (demo_heap [], demo_data)"
proof -
  have "list_all (\<lambda>p. clear_data demo_api p (demo_heap ''secret'', demo_data) = Inr (demo_heap ''secret'', demo_data))
      builtinSensitivePaths"
    using demo_clear_builtin by (rule list.pred_mono_strong) (rule demo_clear_to)
  moreover have "clear_data demo_api ''nodes.*.key'' (demo_heap ''secret'', demo_data) = Inr (demo_heap [], demo_data)"
    by (rule demo_clear_to) (simp add: demo_clear_path)
  ultimately show ?thesis by (simp add: demo_conf_def clear_all_last)
qed

definition demo_sent :: "unit inspector" where
  "demo_sent = demo_loaded\<lparr>heap := demo_heap [], lastPublished := Some demo_data, outbox := [''frame'']\<rparr>"

lemma demo_publish: "publish demo_api demo_marshal demo_conf demo_loaded = Inr demo_sent"
proof -
  have "\<lparr>sd_ClusterName = ClusterName demo_conf, sd_AuthEnabled = AuthEnabled demo_conf, sd_slice = demo_refs\<rparr> = demo_data"
    by (simp_all add: demo_data_def demo_conf_def example_config_def)
  then show ?thesis
    by (simp add: publish_def demo_sent_def demo_loaded_eq demo_clear demo_marshal_def)
qed

lemma demo_inspect_start: "inspect_start demo_api demo_marshal demo_conf demo_sent"
proof (rule start [OF _ _ demo_publish])
  let ?st = "(store_slice GNodes (Some [demo_node_view demo_node])
    (store_slice GServices (Some []) (store_slice GNetworks (Some []) new_inspector)))\<lparr>haveStructural := True\<rparr>"
  show "refreshStructural demo_api demo_conf (Some [demo_node]) (Some []) (Some []) new_inspector = Inr (True, ?st)"
    by (simp add: refreshStructural_def getServicesInfo_def sanitizeServices_def getNodesInfo_def
        getNetworksInfo_def sanitizeNodes_def demo_conf_def example_config_def hidesLabels_def demo_api_def)
  show "refreshTasks demo_api demo_conf 0 ([], [], []) (Some []) ?st = Inr (True, demo_loaded)"
    by (simp add: refreshTasks_def getTasksInfo_def sanitizeTasks_def demo_loaded_def store_slice_def
        new_inspector_def)
qed

lemma demo_sent_reachable: "inspect_reachable demo_api demo_marshal demo_conf demo_sent"
  using demo_inspect_start by (auto simp: inspect_reachable_def)

lemma demo_sent_simps:
  "outbox demo_sent = [''frame'']" "lastPublished demo_sent = Some demo_data" "haveStructural demo_sent"
  "haveTasks demo_sent" "heap demo_sent = demo_heap []" "current demo_sent = demo_refs"
  "''nodes.*.key'' \<in> set (SensitiveDataPaths demo_conf)"
  by (simp_all add: demo_sent_def demo_loaded_eq demo_conf_def)

theorem published_frames_clean_witness:
  "\<exists>v. demo_marshal v = Some ''frame'' \<and> type_of v = data_type demo_api \<and>
     cleared (splitPath ''nodes.*.key'') (VPtr (data_type demo_api) (Some v))"
  using published_frames_clean [OF demo_views_ok demo_sent_reachable, of "''frame''"] demo_sent_simps(1,7) by auto


theorem no_partial_view_witness: "outbox demo_sent \<noteq> [] \<and> haveStructural demo_sent \<and> haveTasks demo_sent"
  using no_partial_view [OF demo_views_ok demo_sent_reachable] by (simp add: demo_sent_simps(1))

theorem publish_returns_witness: "\<exists>st'. publish demo_api demo_marshal demo_conf demo_sent = Inr st'"
  by (rule publish_returns [OF demo_views_ok demo_sent_reachable demo_safe])

theorem publish_on_change_witness:
  "\<exists>st'. publish demo_api demo_marshal demo_conf demo_sent = Inr st' \<and> prefix (outbox demo_sent) (outbox st')"
proof -
  obtain st' where st': "publish demo_api demo_marshal demo_conf demo_sent = Inr st'"
    using publish_total [OF inspect_reachable_inv [OF demo_views_ok demo_sent_reachable] demo_safe] by blast
  from publish_on_change [OF demo_views_ok demo_sent_reachable st' demo_sent_simps(3,4)]
  have "prefix (outbox demo_sent) (outbox st')" by (auto simp: Let_def)
  with st' show ?thesis by blast
qed

theorem failed_refresh_keeps_state_witness:
  "refreshStructural demo_api demo_conf None (Some []) (Some []) demo_sent = Inr (False, demo_sent) \<and>
   refreshTasks demo_api demo_conf 0 ([], [], []) None demo_sent = Inr (False, demo_sent)"
proof -
  obtain ok s1 where s: "refreshStructural demo_api demo_conf None (Some []) (Some []) demo_sent = Inr (ok, s1)"
    by (auto simp: refreshStructural_def getServicesInfo_def sanitizeServices_def getNodesInfo_def getNetworksInfo_def)
  obtain ok' s2 where t: "refreshTasks demo_api demo_conf 0 ([], [], []) None demo_sent = Inr (ok', s2)"
    by (auto simp: refreshTasks_def getTasksInfo_def)
  from failed_refresh_keeps_state [OF s t] s t show ?thesis by simp
qed

end
