(* ===== verification/Hub.thy ===== *)
theory Hub
  imports Config
begin

text \<open>
  \<open>internal/docker/handlers.go\<close>: the hub that owns the WebSocket clients and fans snapshot frames
  out to them.  First the channels of Go as far as the hub uses them, then the hub's own
  operations, then the goroutines (publisher, \<open>runBroadcasts\<close>, one \<open>handleConnections\<close> and one
  \<open>writePump\<close> per connection) as one step relation.  A critical section under \<open>h.mu\<close> is one step,
  except for the loop of \<open>runBroadcasts\<close>, whose \<open>select\<close> statements are single steps because a
  \<open>writePump\<close> may receive between them; while the broadcaster is inside the loop it holds the lock
  and no other critical section runs.
\<close>

section \<open>Channels\<close>

text \<open>A client's \<open>send\<close> channel, of capacity 1.\<close>

record send_chan =
  ch_buf :: "string list"
  ch_closed :: bool

definition new_chan :: send_chan where
  "new_chan = \<lparr>ch_buf = [], ch_closed = False\<rparr>"

text \<open>\<open>ch <- x\<close>: panics on a closed channel; \<open>None\<close> is a sender that has to wait.\<close>

definition chan_send :: "string \<Rightarrow> send_chan \<Rightarrow> send_chan option go" where
  "chan_send x ch =
     (if ch_closed ch then Inl SendOnClosed
      else if length (ch_buf ch) < 1 then Inr (Some (ch\<lparr>ch_buf := ch_buf ch @ [x]\<rparr>))
      else Inr None)"

text \<open>\<open>select { case ch <- x: default: }\<close>: the flag says that the send happened.\<close>

definition try_send :: "string \<Rightarrow> send_chan \<Rightarrow> (bool \<times> send_chan) go" where
  "try_send x ch =
     (case chan_send x ch of
        Inl p \<Rightarrow> Inl p
      | Inr None \<Rightarrow> Inr (False, ch)
      | Inr (Some ch') \<Rightarrow> Inr (True, ch'))"

text \<open>\<open>select { case <-ch: default: }\<close>: drops a buffered frame, if there is one.\<close>

definition try_drop :: "send_chan \<Rightarrow> send_chan" where
  "try_drop ch = ch\<lparr>ch_buf := tl (ch_buf ch)\<rparr>"

definition chan_close :: "send_chan \<Rightarrow> send_chan go" where
  "chan_close ch = (if ch_closed ch then Inl CloseOfClosed else Inr (ch\<lparr>ch_closed := True\<rparr>))"

section \<open>The hub\<close>

type_synonym client = nat

text \<open>
  \<open>clients\<close> is the map's key set; \<open>sends\<close> is the \<open>send\<close> field of every client, registered or not.
\<close>

record hub =
  cfg :: config
  clients :: "client set"
  lastFanned :: "string option"
  maxClients :: int
  broadcast :: "string list"
  sends :: "client \<Rightarrow> send_chan"

definition newHub :: "config \<Rightarrow> hub" where
  "newHub c =
     \<lparr>cfg = c, clients = {}, lastFanned = None, maxClients = MaxWSConnections c, broadcast = [],
      sends = (\<lambda>_. new_chan)\<rparr>"

definition Ready :: "hub \<Rightarrow> bool" where
  "Ready h \<longleftrightarrow> lastFanned h \<noteq> None"

text \<open>\<open>h.broadcast\<close> has capacity 1; \<open>None\<close> is a publisher that has to wait.\<close>

definition Publish :: "string \<Rightarrow> hub \<Rightarrow> hub option" where
  "Publish frame h =
     (if length (broadcast h) < 1 then Some (h\<lparr>broadcast := broadcast h @ [frame]\<rparr>) else None)"

definition atCapacity :: "hub \<Rightarrow> bool" where
  "atCapacity h =
     (if maxClients h \<le> 0 then False else maxClients h \<le> int (card (clients h)))"

definition put_chan :: "client \<Rightarrow> send_chan \<Rightarrow> hub \<Rightarrow> hub" where
  "put_chan c ch h = h\<lparr>sends := (sends h)(c := ch)\<rparr>"

text \<open>\<open>register\<close>: \<open>Inr None\<close> would be a seed that blocks while the lock is held.\<close>

definition register :: "client \<Rightarrow> hub \<Rightarrow> (bool \<times> hub) option go" where
  "register c h =
     (if 0 < maxClients h \<and> maxClients h \<le> int (card (clients h)) then Inr (Some (False, h))
      else
        (let h' = h\<lparr>clients := insert c (clients h)\<rparr> in
         case lastFanned h' of
           None \<Rightarrow> Inr (Some (True, h'))
         | Some frame \<Rightarrow>
             go_map (map_option (\<lambda>ch. (True, put_chan c ch h'))) (chan_send frame (sends h' c))))"

definition unregister :: "client \<Rightarrow> hub \<Rightarrow> hub go" where
  "unregister c h =
     (if c \<in> clients h then
        go_map (\<lambda>ch. put_chan c ch (h\<lparr>clients := clients h - {c}\<rparr>)) (chan_close (sends h c))
      else Inr h)"

text \<open>\<open>enqueue\<close> with nobody receiving meanwhile: the three \<open>select\<close> statements in a row.\<close>

definition enqueue :: "string \<Rightarrow> send_chan \<Rightarrow> send_chan go" where
  "enqueue msg ch =
     go_bind (try_send msg ch) (\<lambda>(sent, ch1).
       if sent then Inr ch1
       else go_map snd (try_send msg (try_drop ch1)))"

text \<open>\<open>upgrader.CheckOrigin\<close>; \<open>urlHost\<close> is \<open>url.Parse\<close> followed by \<open>.Host\<close>.\<close>

definition CheckOrigin :: "(string \<Rightarrow> string option) \<Rightarrow> string \<Rightarrow> string \<Rightarrow> bool" where
  "CheckOrigin urlHost origin host =
     (if origin = [] then True
      else (case urlHost origin of None \<Rightarrow> False | Some h \<Rightarrow> h = host))"

section \<open>The goroutines\<close>

text \<open>Where a connection's \<open>handleConnections\<close> is, where its \<open>writePump\<close> is, and the broadcaster.\<close>

datatype conn_pc = HStart | HUpgrade | HAuth | HRegister | HReading | HUnregister | HDone

datatype pump_pc = WNotStarted | WRunning | WDone

datatype bcast_pc =
    BWait
  | BLock string
  | BFan string "client set"
  | BFull string client "client set"
  | BDrained string client "client set"

text \<open>What the connection's handler has answered with, if it has refused the connection.\<close>

datatype refusal = TooManyConnections | UpgradeFailed | Unauthorized | CapRace

text \<open>
  The system: the hub, the program counters, and what an observer has seen so far (frames
  accepted by \<open>Publish\<close>, frames fanned out, frames each pump has taken and written, refusals).
\<close>

record sys =
  hubst :: hub
  bpc :: bcast_pc
  hpc :: "client \<Rightarrow> conn_pc"
  wpc :: "client \<Rightarrow> pump_pc"
  refused :: "client \<Rightarrow> refusal option"
  published :: "string list"
  fanned :: "string list"
  taken :: "client \<Rightarrow> string list"
  written :: "client \<Rightarrow> string list"
  panicked :: "go_panic option"

definition init_sys :: "config \<Rightarrow> sys" where
  "init_sys c =
     \<lparr>hubst = newHub c, bpc = BWait, hpc = (\<lambda>_. HStart), wpc = (\<lambda>_. WNotStarted),
      refused = (\<lambda>_. None), published = [], fanned = [], taken = (\<lambda>_. []), written = (\<lambda>_. []),
      panicked = None\<rparr>"

definition lock_free :: "sys \<Rightarrow> bool" where
  "lock_free s = (case bpc s of BWait \<Rightarrow> True | BLock f \<Rightarrow> True | _ \<Rightarrow> False)"

definition set_hpc :: "client \<Rightarrow> conn_pc \<Rightarrow> sys \<Rightarrow> sys" where
  "set_hpc c p s = s\<lparr>hpc := (hpc s)(c := p)\<rparr>"

definition refuse :: "client \<Rightarrow> refusal \<Rightarrow> sys \<Rightarrow> sys" where
  "refuse c r s = set_hpc c HDone (s\<lparr>refused := (refused s)(c := Some r)\<rparr>)"

definition crash :: "sys \<Rightarrow> sys go \<Rightarrow> sys" where
  "crash s m = (case m of Inl p \<Rightarrow> s\<lparr>panicked := Some p\<rparr> | Inr t \<Rightarrow> t)"

text \<open>The publisher and the broadcaster: \<open>runBroadcasts\<close> with the selects of \<open>enqueue\<close>.\<close>

definition bcast_first :: "string \<Rightarrow> client \<Rightarrow> client set \<Rightarrow> sys \<Rightarrow> sys go" where
  "bcast_first msg c todo s =
     go_map (\<lambda>(sent, ch).
         if sent then s\<lparr>hubst := put_chan c ch (hubst s), bpc := BFan msg (todo - {c})\<rparr>
         else s\<lparr>bpc := BFull msg c (todo - {c})\<rparr>)
       (try_send msg (sends (hubst s) c))"

definition bcast_drop :: "string \<Rightarrow> client \<Rightarrow> client set \<Rightarrow> sys \<Rightarrow> sys" where
  "bcast_drop msg c todo s =
     s\<lparr>hubst := put_chan c (try_drop (sends (hubst s) c)) (hubst s), bpc := BDrained msg c todo\<rparr>"

definition bcast_last :: "string \<Rightarrow> client \<Rightarrow> client set \<Rightarrow> sys \<Rightarrow> sys go" where
  "bcast_last msg c todo s =
     go_map (\<lambda>(sent, ch). s\<lparr>hubst := put_chan c ch (hubst s), bpc := BFan msg todo\<rparr>)
       (try_send msg (sends (hubst s) c))"

definition bcast_lock :: "string \<Rightarrow> sys \<Rightarrow> sys" where
  "bcast_lock msg s =
     s\<lparr>hubst := (hubst s)\<lparr>lastFanned := Some msg\<rparr>, bpc := BFan msg (clients (hubst s)),
       fanned := fanned s @ [msg]\<rparr>"

inductive bcast_step :: "sys \<Rightarrow> sys \<Rightarrow> bool" where
  bcast_recv: "bpc s = BWait \<Longrightarrow> broadcast (hubst s) = msg # rest \<Longrightarrow>
     bcast_step s (s\<lparr>hubst := (hubst s)\<lparr>broadcast := rest\<rparr>, bpc := BLock msg\<rparr>)"
| bcast_acquire: "bpc s = BLock msg \<Longrightarrow> bcast_step s (bcast_lock msg s)"
| bcast_select1: "bpc s = BFan msg todo \<Longrightarrow> c \<in> todo \<Longrightarrow>
     bcast_step s (crash s (bcast_first msg c todo s))"
| bcast_select2: "bpc s = BFull msg c todo \<Longrightarrow> bcast_step s (bcast_drop msg c todo s)"
| bcast_select3: "bpc s = BDrained msg c todo \<Longrightarrow>
     bcast_step s (crash s (bcast_last msg c todo s))"
| bcast_release: "bpc s = BFan msg {} \<Longrightarrow> bcast_step s (s\<lparr>bpc := BWait\<rparr>)"

text \<open>
  \<open>handleConnections\<close> for connection \<open>c\<close>.  \<open>upgrades c\<close> is the result of the WebSocket upgrade and
  \<open>valid c\<close> that of the token validator on the connection's request.
\<close>

definition do_register :: "client \<Rightarrow> sys \<Rightarrow> sys option go" where
  "do_register c s =
     go_map (map_option (\<lambda>(ok, h).
         if ok then set_hpc c HReading (s\<lparr>hubst := h, wpc := (wpc s)(c := WRunning)\<rparr>)
         else refuse c CapRace s))
       (register c (hubst s))"

definition do_unregister :: "client \<Rightarrow> sys \<Rightarrow> sys go" where
  "do_unregister c s = go_map (\<lambda>h. set_hpc c HDone (s\<lparr>hubst := h\<rparr>)) (unregister c (hubst s))"

inductive conn_step :: "(client \<Rightarrow> bool) \<Rightarrow> (client \<Rightarrow> bool) \<Rightarrow> sys \<Rightarrow> sys \<Rightarrow> bool"
  for upgrades :: "client \<Rightarrow> bool" and valid :: "client \<Rightarrow> bool" where
  conn_shed: "hpc s c = HStart \<Longrightarrow> lock_free s \<Longrightarrow> atCapacity (hubst s) \<Longrightarrow>
     conn_step upgrades valid s (refuse c TooManyConnections s)"
| conn_admit: "hpc s c = HStart \<Longrightarrow> maxClients (hubst s) \<le> 0 \<or> lock_free s \<Longrightarrow>
     \<not> atCapacity (hubst s) \<Longrightarrow>
     conn_step upgrades valid s (set_hpc c HUpgrade s)"
| conn_no_upgrade: "hpc s c = HUpgrade \<Longrightarrow> \<not> upgrades c \<Longrightarrow>
     conn_step upgrades valid s (refuse c UpgradeFailed s)"
| conn_upgrade: "hpc s c = HUpgrade \<Longrightarrow> upgrades c \<Longrightarrow>
     conn_step upgrades valid s (set_hpc c HAuth s)"
| conn_unauthorized: "hpc s c = HAuth \<Longrightarrow> AuthEnabled (cfg (hubst s)) \<Longrightarrow> \<not> valid c \<Longrightarrow>
     conn_step upgrades valid s (refuse c Unauthorized s)"
| conn_authorized: "hpc s c = HAuth \<Longrightarrow> AuthEnabled (cfg (hubst s)) \<longrightarrow> valid c \<Longrightarrow>
     conn_step upgrades valid s (set_hpc c HRegister s)"
| conn_register: "hpc s c = HRegister \<Longrightarrow> lock_free s \<Longrightarrow> do_register c s = Inr (Some t) \<Longrightarrow>
     conn_step upgrades valid s t"
| conn_register_panic: "hpc s c = HRegister \<Longrightarrow> lock_free s \<Longrightarrow> do_register c s = Inl p \<Longrightarrow>
     conn_step upgrades valid s (s\<lparr>panicked := Some p\<rparr>)"
| conn_read: "hpc s c = HReading \<Longrightarrow> conn_step upgrades valid s s"
| conn_read_error: "hpc s c = HReading \<Longrightarrow> conn_step upgrades valid s (set_hpc c HUnregister s)"
| conn_unregister: "hpc s c = HUnregister \<Longrightarrow> lock_free s \<Longrightarrow>
     conn_step upgrades valid s (crash s (do_unregister c s))"

text \<open>
  \<open>writePump\<close>: a received frame is written, or the write fails and the pump ends; a closed and
  empty channel ends it; a ping succeeds, or fails and ends it.
\<close>

definition pump_take :: "client \<Rightarrow> string \<Rightarrow> string list \<Rightarrow> sys \<Rightarrow> sys" where
  "pump_take c msg rest s =
     s\<lparr>hubst := put_chan c ((sends (hubst s) c)\<lparr>ch_buf := rest\<rparr>) (hubst s),
       taken := (taken s)(c := taken s c @ [msg])\<rparr>"

definition pump_stop :: "client \<Rightarrow> sys \<Rightarrow> sys" where
  "pump_stop c s = s\<lparr>wpc := (wpc s)(c := WDone)\<rparr>"

inductive pump_step :: "sys \<Rightarrow> sys \<Rightarrow> bool" where
  pump_write: "wpc s c = WRunning \<Longrightarrow> ch_buf (sends (hubst s) c) = msg # rest \<Longrightarrow>
     pump_step s ((pump_take c msg rest s)\<lparr>written := (written s)(c := written s c @ [msg])\<rparr>)"
| pump_write_error: "wpc s c = WRunning \<Longrightarrow> ch_buf (sends (hubst s) c) = msg # rest \<Longrightarrow>
     pump_step s (pump_stop c (pump_take c msg rest s))"
| pump_closed: "wpc s c = WRunning \<Longrightarrow> ch_buf (sends (hubst s) c) = [] \<Longrightarrow>
     ch_closed (sends (hubst s) c) \<Longrightarrow> pump_step s (pump_stop c s)"
| pump_ping: "wpc s c = WRunning \<Longrightarrow> pump_step s s"
| pump_ping_error: "wpc s c = WRunning \<Longrightarrow> pump_step s (pump_stop c s)"

definition publish_step :: "sys \<Rightarrow> sys \<Rightarrow> bool" where
  "publish_step s t \<longleftrightarrow>
     (\<exists>frame h. Publish frame (hubst s) = Some h \<and>
        t = s\<lparr>hubst := h, published := published s @ [frame]\<rparr>)"

text \<open>Any goroutine may move; a process that has panicked does not.\<close>

definition hub_step :: "(client \<Rightarrow> bool) \<Rightarrow> (client \<Rightarrow> bool) \<Rightarrow> sys \<Rightarrow> sys \<Rightarrow> bool" where
  "hub_step upgrades valid s t \<longleftrightarrow>
     panicked s = None \<and>
     (publish_step s t \<or> bcast_step s t \<or> conn_step upgrades valid s t \<or> pump_step s t)"

end
