(* ===== verification/HubInv.thy ===== *)
theory HubInv
  imports Hub
begin

text \<open>
  The invariant of the hub under every interleaving of its goroutines, one preservation lemma per
  step, and the interpretation of \<open>invariant_system\<close> that the properties rest on.
\<close>

section \<open>The invariant\<close>

text \<open>The clients the broadcaster still has to serve in the fan-out it is in.\<close>

definition pending :: "bcast_pc \<Rightarrow> client set" where
  "pending p =
     (case p of
        BFan msg todo \<Rightarrow> todo
      | BFull msg c todo \<Rightarrow> insert c todo
      | BDrained msg c todo \<Rightarrow> insert c todo
      | _ \<Rightarrow> {})"

text \<open>
  What holds of one connection: \<open>reg\<close> and \<open>pend\<close> say that it is registered and still to be served,
  \<open>hist\<close> is the history of fanned-out frames.  Its frames, taken or buffered, are a subsequence of
  the history, and end with the newest frame once it has been served.
\<close>

definition client_ok ::
  "bool \<Rightarrow> bool \<Rightarrow> conn_pc \<Rightarrow> pump_pc \<Rightarrow> send_chan \<Rightarrow> string list \<Rightarrow> string list \<Rightarrow> bool \<Rightarrow> bool
     \<Rightarrow> string list \<Rightarrow> bool" where
  "client_ok auth v pc w ch tk wr reg pend hist \<longleftrightarrow>
     length (ch_buf ch) \<le> 1 \<and>
     (reg \<longleftrightarrow> pc = HReading \<or> pc = HUnregister) \<and>
     (reg \<longrightarrow> \<not> ch_closed ch) \<and>
     (pc = HStart \<or> pc = HUpgrade \<or> pc = HAuth \<or> pc = HRegister \<longrightarrow>
        ch = new_chan \<and> tk = [] \<and> w = WNotStarted) \<and>
     (pend \<longrightarrow> reg) \<and>
     subseq (tk @ ch_buf ch) (if pend then butlast hist else hist) \<and>
     (reg \<and> \<not> pend \<and> hist \<noteq> [] \<longrightarrow> tk @ ch_buf ch \<noteq> [] \<and> last (tk @ ch_buf ch) = last hist) \<and>
     (auth \<and> (pc = HRegister \<or> reg \<or> tk \<noteq> [] \<or> ch_buf ch \<noteq> []) \<longrightarrow> v) \<and>
     prefix wr tk \<and> (w \<noteq> WDone \<longrightarrow> wr = tk)"

definition fan_ok :: "bcast_pc \<Rightarrow> string list \<Rightarrow> (client \<Rightarrow> send_chan) \<Rightarrow> bool" where
  "fan_ok p hist chs \<longleftrightarrow>
     (case p of
        BFan msg todo \<Rightarrow> hist \<noteq> [] \<and> last hist = msg
      | BFull msg c todo \<Rightarrow> hist \<noteq> [] \<and> last hist = msg \<and> c \<notin> todo
      | BDrained msg c todo \<Rightarrow> hist \<noteq> [] \<and> last hist = msg \<and> c \<notin> todo \<and> ch_buf (chs c) = []
      | _ \<Rightarrow> True)"

definition waiting :: "bcast_pc \<Rightarrow> string list" where
  "waiting p = (case p of BLock msg \<Rightarrow> [msg] | _ \<Rightarrow> [])"

definition cap_ok :: "int \<Rightarrow> client set \<Rightarrow> bool" where
  "cap_ok n cs \<longleftrightarrow> finite cs \<and> (0 < n \<longrightarrow> int (card cs) \<le> n)"

definition newest :: "string list \<Rightarrow> string option" where
  "newest hist = (if hist = [] then None else Some (last hist))"

text \<open>What holds of the hub, the broadcaster and the histories of published and fanned-out frames.\<close>

definition shape_ok :: "config \<Rightarrow> hub \<Rightarrow> bcast_pc \<Rightarrow> string list \<Rightarrow> string list \<Rightarrow> bool" where
  "shape_ok cf h p hist pub \<longleftrightarrow>
     cfg h = cf \<and> maxClients h = MaxWSConnections cf \<and> cap_ok (MaxWSConnections cf) (clients h) \<and>
     lastFanned h = newest hist \<and> pub = hist @ waiting p @ broadcast h \<and>
     length (broadcast h) \<le> 1 \<and> fan_ok p hist (sends h)"

definition conn_ok :: "(client \<Rightarrow> bool) \<Rightarrow> sys \<Rightarrow> client \<Rightarrow> bool" where
  "conn_ok valid s c \<longleftrightarrow>
     client_ok (AuthEnabled (cfg (hubst s))) (valid c) (hpc s c) (wpc s c) (sends (hubst s) c)
       (taken s c) (written s c) (c \<in> clients (hubst s)) (c \<in> pending (bpc s)) (fanned s)"

definition hub_inv :: "config \<Rightarrow> (client \<Rightarrow> bool) \<Rightarrow> sys \<Rightarrow> bool" where
  "hub_inv cf valid s \<longleftrightarrow>
     panicked s = None \<and> shape_ok cf (hubst s) (bpc s) (fanned s) (published s) \<and>
     (\<forall>c. conn_ok valid s c)"

section \<open>Rewriting\<close>

lemma put_chan_simps [simp]:
  "sends (put_chan c ch h) = (sends h)(c := ch)"
  "clients (put_chan c ch h) = clients h"
  "lastFanned (put_chan c ch h) = lastFanned h"
  "maxClients (put_chan c ch h) = maxClients h"
  "broadcast (put_chan c ch h) = broadcast h"
  "cfg (put_chan c ch h) = cfg h"
  by (simp_all add: put_chan_def)

lemma set_hpc_simps [simp]:
  "hubst (set_hpc c p s) = hubst s" "bpc (set_hpc c p s) = bpc s"
  "hpc (set_hpc c p s) = (hpc s)(c := p)" "wpc (set_hpc c p s) = wpc s"
  "published (set_hpc c p s) = published s" "fanned (set_hpc c p s) = fanned s"
  "taken (set_hpc c p s) = taken s" "written (set_hpc c p s) = written s"
  "panicked (set_hpc c p s) = panicked s" "refused (set_hpc c p s) = refused s"
  by (simp_all add: set_hpc_def)

lemma crash_Inr [simp]: "crash s (Inr t) = t"
  by (simp add: crash_def)

lemma try_send_open:
  "\<not> ch_closed ch \<Longrightarrow> try_send x ch =
     (if ch_buf ch = [] then Inr (True, ch\<lparr>ch_buf := [x]\<rparr>) else Inr (False, ch))"
  by (simp add: try_send_def chan_send_def)

lemma hub_invI:
  assumes "panicked s = None" and "shape_ok cf (hubst s) (bpc s) (fanned s) (published s)"
    and "\<And>c. conn_ok valid s c"
  shows "hub_inv cf valid s"
  using assms by (simp add: hub_inv_def)

lemma hub_invD:
  assumes "hub_inv cf valid s"
  shows "panicked s = None" and "shape_ok cf (hubst s) (bpc s) (fanned s) (published s)"
    and "conn_ok valid s c"
  using assms by (simp_all add: hub_inv_def)

lemmas pc_simps = pending_def waiting_def fan_ok_def

lemma subseq_butlast_snoc: "hist \<noteq> [] \<Longrightarrow> subseq xs (butlast hist) \<Longrightarrow> subseq (xs @ [last hist]) hist"
  by (cases hist rule: rev_cases) (simp_all add: subseq_append)

lemma subseq_butlast: "subseq xs (butlast hist) \<Longrightarrow> subseq xs hist"
  by (cases hist rule: rev_cases) (simp_all add: subseq_rev_drop_many)

lemma subseq_prefix: "subseq (xs @ ys) zs \<Longrightarrow> subseq xs zs"
  by (rule subseq_order.order_trans [OF subseq_rev_drop_many [OF subseq_order.order_refl]])

section \<open>What each step does to one client\<close>

text \<open>The laws of \<open>client_ok\<close>, one per thing that may happen to the client.\<close>

lemma client_ok_new_frame:
  "client_ok a v pc w ch tk wr reg False hist \<Longrightarrow> client_ok a v pc w ch tk wr reg reg (hist @ [m])"
  by (auto simp: client_ok_def subseq_rev_drop_many)

lemma client_ok_deliver:
  assumes "client_ok a v pc w ch tk wr reg True hist" and "ch_buf ch = []" and "hist \<noteq> []"
  shows "client_ok a v pc w (ch\<lparr>ch_buf := [last hist]\<rparr>) tk wr reg False hist"
  using assms by (auto simp: client_ok_def subseq_butlast_snoc)

lemma client_ok_drop:
  assumes "client_ok a v pc w ch tk wr reg True hist"
  shows "client_ok a v pc w (ch\<lparr>ch_buf := []\<rparr>) tk wr reg True hist"
  using assms by (auto simp: client_ok_def dest: subseq_prefix)

lemma client_ok_open: "client_ok a v pc w ch tk wr reg True hist \<Longrightarrow> \<not> ch_closed ch"
  by (auto simp: client_ok_def)

lemma client_ok_early:
  assumes "client_ok a v pc w ch tk wr reg pend hist" and "pc \<in> {HStart, HUpgrade, HAuth, HRegister}"
  shows "\<not> reg" "\<not> pend" "ch = new_chan" "tk = []" "wr = []" "w = WNotStarted"
    and "pc = HRegister \<Longrightarrow> a \<Longrightarrow> v"
  using assms by (auto simp: client_ok_def)

lemma client_ok_move:
  assumes "client_ok a v pc w ch tk wr reg pend hist" and "pc \<in> {HStart, HUpgrade, HAuth, HRegister}"
    and "pc' \<in> {HUpgrade, HAuth, HDone} \<or> (pc' = HRegister \<and> (a \<longrightarrow> v))"
  shows "client_ok a v pc' w ch tk wr reg pend hist"
  using assms by (auto simp: client_ok_def new_chan_def)

lemma client_ok_read_error:
  "client_ok a v HReading w ch tk wr reg pend hist \<Longrightarrow> client_ok a v HUnregister w ch tk wr reg pend hist"
  by (auto simp: client_ok_def)

lemma client_ok_register:
  assumes "client_ok a v HRegister w ch tk wr reg pend hist"
    and "ch_buf ch' = (if hist = [] then [] else [last hist])" and "\<not> ch_closed ch'"
  shows "client_ok a v HReading WRunning ch' tk wr True False hist"
  using assms by (auto simp: client_ok_def subseq_singleton_left)

lemma client_ok_unregister:
  assumes "client_ok a v HUnregister w ch tk wr reg False hist"
  shows "client_ok a v HDone w (ch\<lparr>ch_closed := True\<rparr>) tk wr False False hist"
  using assms by (auto simp: client_ok_def)

lemma client_ok_take:
  assumes "client_ok a v pc WRunning ch tk wr reg pend hist" and "ch_buf ch = m # rest"
  shows "client_ok a v pc WRunning (ch\<lparr>ch_buf := rest\<rparr>) (tk @ [m]) (wr @ [m]) reg pend hist"
    and "client_ok a v pc WDone (ch\<lparr>ch_buf := rest\<rparr>) (tk @ [m]) wr reg pend hist"
  using assms by (auto simp: client_ok_def)

lemma client_ok_subseq: "client_ok a v pc w ch tk wr reg pend hist \<Longrightarrow> subseq (tk @ ch_buf ch) hist"
  by (cases pend) (simp_all add: client_ok_def, blast intro: subseq_butlast)

lemma client_ok_frames:
  "client_ok a v pc w ch tk wr reg pend hist \<Longrightarrow>
   prefix wr tk \<and> length (ch_buf ch) \<le> 1 \<and> subseq (tk @ ch_buf ch) hist"
  by (simp add: client_ok_subseq) (simp add: client_ok_def)

lemma client_ok_latest:
  "client_ok a v pc w ch tk wr reg pend hist \<Longrightarrow> reg \<Longrightarrow> \<not> pend \<Longrightarrow> hist \<noteq> [] \<Longrightarrow>
   tk @ ch_buf ch \<noteq> [] \<and> last (tk @ ch_buf ch) = last hist"
  by (simp add: client_ok_def)

lemma client_ok_stop:
  "client_ok a v pc WRunning ch tk wr reg pend hist \<Longrightarrow> client_ok a v pc WDone ch tk wr reg pend hist"
  by (auto simp: client_ok_def)

section \<open>The broadcaster\<close>

text \<open>A connection whose own components a step leaves alone stays in order.\<close>

lemma conn_ok_frame:
  assumes "conn_ok valid s d" and "cfg (hubst t) = cfg (hubst s)" and "hpc t d = hpc s d"
    and "wpc t d = wpc s d" and "sends (hubst t) d = sends (hubst s) d" and "taken t d = taken s d"
    and "written t d = written s d" and "d \<in> clients (hubst t) \<longleftrightarrow> d \<in> clients (hubst s)"
    and "d \<in> pending (bpc t) \<longleftrightarrow> d \<in> pending (bpc s)" and "fanned t = fanned s"
  shows "conn_ok valid t d"
  using assms by (simp add: conn_ok_def)

lemma pending_open: "hub_inv cf valid s \<Longrightarrow> c \<in> pending (bpc s) \<Longrightarrow> \<not> ch_closed (sends (hubst s) c)"
  using hub_invD(3) [of cf valid s c] by (auto simp: conn_ok_def dest: client_ok_open)

lemma bcast_recv_inv:
  assumes inv: "hub_inv cf valid s" and "bpc s = BWait" and "broadcast (hubst s) = msg # rest"
  shows "hub_inv cf valid (s\<lparr>hubst := (hubst s)\<lparr>broadcast := rest\<rparr>, bpc := BLock msg\<rparr>)"
proof (rule hub_invI, goal_cases)
  case (3 c)
  show ?case
    by (rule conn_ok_frame [OF hub_invD(3) [OF inv, of c]]) (simp_all add: assms(2) pending_def)
qed (use hub_invD(1,2) [OF inv] assms(2,3) in \<open>simp_all add: shape_ok_def pc_simps\<close>)

lemma bcast_lock_inv:
  assumes inv: "hub_inv cf valid s" and pc: "bpc s = BLock msg"
  shows "hub_inv cf valid (bcast_lock msg s)"
proof (rule hub_invI, goal_cases)
  case (3 c)
  from hub_invD(3) [OF inv, of c] pc show ?case
    by (simp add: conn_ok_def bcast_lock_def pending_def client_ok_new_frame)
qed (use hub_invD(1,2) [OF inv] pc in \<open>simp_all add: shape_ok_def pc_simps bcast_lock_def newest_def\<close>)

text \<open>A frame that goes into the empty buffer of a client still to be served.\<close>

lemma deliver_inv:
  assumes inv: "hub_inv cf valid s" and c: "c \<in> pending (bpc s)" and buf: "ch_buf (sends (hubst s) c) = []"
    and fan: "fan_ok (bpc s) (fanned s) (sends (hubst s))" and msg: "fanned s \<noteq> []" "last (fanned s) = msg"
    and todo: "pending (bpc s) = insert c todo" "c \<notin> todo"
  shows "hub_inv cf valid
    (s\<lparr>hubst := put_chan c ((sends (hubst s) c)\<lparr>ch_buf := [msg]\<rparr>) (hubst s), bpc := BFan msg todo\<rparr>)"
    (is "hub_inv cf valid ?t")
proof (rule hub_invI)
  show "panicked ?t = None" using hub_invD(1) [OF inv] by simp
  have "waiting (bpc s) = []" using c by (cases "bpc s") (simp_all add: pc_simps)
  then show "shape_ok cf (hubst ?t) (bpc ?t) (fanned ?t) (published ?t)"
    using hub_invD(2) [OF inv] msg by (simp add: shape_ok_def pc_simps)
  show "conn_ok valid ?t d" for d
  proof (cases "d = c")
    case True
    then show ?thesis
      using hub_invD(3) [OF inv, of c] c buf msg todo
      by (auto simp: conn_ok_def pending_def dest: client_ok_deliver)
  next
    case False
    show ?thesis
      by (rule conn_ok_frame [OF hub_invD(3) [OF inv, of d]])
        (use False todo in \<open>simp_all add: pending_def [of "BFan msg todo"]\<close>)
  qed
qed

lemma bcast_first_inv:
  assumes inv: "hub_inv cf valid s" and pc: "bpc s = BFan msg todo" and c: "c \<in> todo"
  shows "hub_inv cf valid (crash s (bcast_first msg c todo s))"
proof -
  let ?ch = "sends (hubst s) c"
  have pend: "pending (bpc s) = insert c (todo - {c})" using pc c by (auto simp: pending_def)
  have open_ch: "\<not> ch_closed ?ch" using pending_open [OF inv] pend by simp
  from hub_invD(2) [OF inv] have fan: "fan_ok (bpc s) (fanned s) (sends (hubst s))"
    by (simp add: shape_ok_def)
  then have msg: "fanned s \<noteq> []" "last (fanned s) = msg" using pc by (simp_all add: pc_simps)
  show ?thesis
  proof (cases "ch_buf ?ch = []")
    case True
    then have "crash s (bcast_first msg c todo s) =
        s\<lparr>hubst := put_chan c (?ch\<lparr>ch_buf := [msg]\<rparr>) (hubst s), bpc := BFan msg (todo - {c})\<rparr>"
      by (simp add: bcast_first_def try_send_open [OF open_ch])
    then show ?thesis using deliver_inv [OF inv _ True fan msg pend] pend by simp
  next
    case False
    then have step: "crash s (bcast_first msg c todo s) = s\<lparr>bpc := BFull msg c (todo - {c})\<rparr>"
      by (simp add: bcast_first_def try_send_open [OF open_ch])
    show ?thesis
      unfolding step
    proof (rule hub_invI, goal_cases)
      case (3 d)
      show ?case
        by (rule conn_ok_frame [OF hub_invD(3) [OF inv, of d]]) (simp_all add: pend, simp add: pending_def)
    qed (use hub_invD(1,2) [OF inv] msg pc in \<open>simp_all add: shape_ok_def pc_simps\<close>)
  qed
qed

lemma bcast_drop_inv:
  assumes inv: "hub_inv cf valid s" and pc: "bpc s = BFull msg c todo"
  shows "hub_inv cf valid (bcast_drop msg c todo s)"
proof -
  have "length (ch_buf (sends (hubst s) c)) \<le> 1"
    using hub_invD(3) [OF inv, of c] by (simp add: conn_ok_def client_ok_def)
  then have empty: "tl (ch_buf (sends (hubst s) c)) = []"
    by (cases "ch_buf (sends (hubst s) c)") simp_all
  show ?thesis
  proof (rule hub_invI, goal_cases)
    case (3 d)
    show ?case
    proof (cases "d = c")
      case True
      then show ?thesis
        using hub_invD(3) [OF inv, of c] pc empty
        by (simp add: conn_ok_def pending_def bcast_drop_def try_drop_def client_ok_drop)
    next
      case False
      show ?thesis
        by (rule conn_ok_frame [OF hub_invD(3) [OF inv, of d]])
          (use False pc in \<open>simp_all add: bcast_drop_def pending_def\<close>)
    qed
  qed (use hub_invD(1,2) [OF inv] pc empty in
      \<open>simp_all add: shape_ok_def pc_simps bcast_drop_def try_drop_def\<close>)
qed

lemma bcast_last_inv:
  assumes inv: "hub_inv cf valid s" and pc: "bpc s = BDrained msg c todo"
  shows "hub_inv cf valid (crash s (bcast_last msg c todo s))"
proof -
  let ?ch = "sends (hubst s) c"
  have pend: "pending (bpc s) = insert c todo" using pc by (simp add: pending_def)
  have open_ch: "\<not> ch_closed ?ch" using pending_open [OF inv] pend by simp
  from hub_invD(2) [OF inv] have fan: "fan_ok (bpc s) (fanned s) (sends (hubst s))"
    by (simp add: shape_ok_def)
  then have msg: "fanned s \<noteq> []" "last (fanned s) = msg" and fresh: "c \<notin> todo" "ch_buf ?ch = []"
    using pc by (simp_all add: pc_simps)
  have "crash s (bcast_last msg c todo s) =
      s\<lparr>hubst := put_chan c (?ch\<lparr>ch_buf := [msg]\<rparr>) (hubst s), bpc := BFan msg todo\<rparr>"
    using fresh by (simp add: bcast_last_def try_send_open [OF open_ch])
  then show ?thesis using deliver_inv [OF inv _ fresh(2) fan msg pend fresh(1)] pend by simp
qed

lemma bcast_release_inv:
  assumes inv: "hub_inv cf valid s" and pc: "bpc s = BFan msg {}"
  shows "hub_inv cf valid (s\<lparr>bpc := BWait\<rparr>)"
proof (rule hub_invI, goal_cases)
  case (3 c)
  show ?case
    by (rule conn_ok_frame [OF hub_invD(3) [OF inv, of c]]) (simp_all add: pc pending_def)
qed (use hub_invD(1,2) [OF inv] pc in \<open>simp_all add: shape_ok_def pc_simps\<close>)

lemma bcast_step_inv: "bcast_step s t \<Longrightarrow> hub_inv cf valid s \<Longrightarrow> hub_inv cf valid t"
  by (induction rule: bcast_step.induct)
    (blast intro: bcast_recv_inv bcast_lock_inv bcast_first_inv bcast_drop_inv bcast_last_inv
      bcast_release_inv)+

section \<open>The connections\<close>

lemma set_hpc_inv:
  assumes inv: "hub_inv cf valid s"
    and ok: "conn_ok valid (set_hpc c p s) c"
  shows "hub_inv cf valid (set_hpc c p s)"
proof (rule hub_invI, goal_cases)
  case (3 d)
  then show ?case
    using ok hub_invD(3) [OF inv, of d] by (cases "d = c") (auto elim: conn_ok_frame)
qed (use hub_invD(1,2) [OF inv] in simp_all)

lemma early_move_inv:
  assumes inv: "hub_inv cf valid s" and pc: "hpc s c \<in> {HStart, HUpgrade, HAuth, HRegister}"
    and to: "p \<in> {HUpgrade, HAuth, HDone} \<or> (p = HRegister \<and> (AuthEnabled cf \<longrightarrow> valid c))"
  shows "hub_inv cf valid (set_hpc c p s)"
proof (rule set_hpc_inv [OF inv])
  have "cfg (hubst s) = cf" using hub_invD(2) [OF inv] by (simp add: shape_ok_def)
  then show "conn_ok valid (set_hpc c p s) c"
    using hub_invD(3) [OF inv, of c] pc to client_ok_move
    by (simp only: conn_ok_def set_hpc_simps fun_upd_same)
qed

lemma refuse_inv:
  assumes inv: "hub_inv cf valid s" and pc: "hpc s c \<in> {HStart, HUpgrade, HAuth, HRegister}"
  shows "hub_inv cf valid (refuse c r s)"
proof -
  let ?s = "s\<lparr>refused := (refused s)(c := Some r)\<rparr>"
  have "hub_inv cf valid ?s"
    using inv by (simp add: hub_inv_def conn_ok_def)
  then show ?thesis unfolding refuse_def by (rule early_move_inv) (use pc in simp_all)
qed

lemma register_fresh:
  assumes "sends h c = new_chan"
  shows "register c h =
    (if 0 < maxClients h \<and> maxClients h \<le> int (card (clients h)) then Inr (Some (False, h))
     else Inr (Some (True, put_chan c
       (case lastFanned h of None \<Rightarrow> new_chan | Some f \<Rightarrow> \<lparr>ch_buf = [f], ch_closed = False\<rparr>)
       (h\<lparr>clients := insert c (clients h)\<rparr>))))"
  using assms
  by (simp add: register_def chan_send_def new_chan_def Let_def put_chan_def fun_upd_idem split: option.split)

lemma lock_free_pending: "lock_free s \<Longrightarrow> pending (bpc s) = {}"
  by (cases "bpc s") (simp_all add: lock_free_def pending_def)

lemma lock_free_fan: "lock_free s \<Longrightarrow> fan_ok (bpc s) hist chs"
  by (cases "bpc s") (simp_all add: lock_free_def fan_ok_def)

lemma cap_ok_insert:
  "cap_ok n cs \<Longrightarrow> \<not> (0 < n \<and> n \<le> int (card cs)) \<Longrightarrow> cap_ok n (insert c cs)"
  by (auto simp: cap_ok_def card_insert_if)

lemma cap_ok_remove: "cap_ok n cs \<Longrightarrow> cap_ok n (cs - {c})"
  using card_Diff1_le [of cs c] by (auto simp: cap_ok_def)

lemma do_register_inv:
  assumes inv: "hub_inv cf valid s" and pc: "hpc s c = HRegister" and lf: "lock_free s"
  shows "\<exists>t. do_register c s = Inr (Some t) \<and> hub_inv cf valid t"
proof -
  let ?h = "hubst s"
  note sh = hub_invD(2) [OF inv] and k = hub_invD(3) [OF inv, of c]
  have new: "sends ?h c = new_chan"
    using k pc client_ok_early(3) unfolding conn_ok_def by blast
  show ?thesis
  proof (cases "0 < maxClients ?h \<and> maxClients ?h \<le> int (card (clients ?h))")
    case True
    then show ?thesis
      using refuse_inv [OF inv, of c CapRace] pc
      by (simp add: do_register_def register_fresh [OF new])
  next
    case False
    define ch where "ch = (case lastFanned ?h of None \<Rightarrow> new_chan
      | Some f \<Rightarrow> \<lparr>ch_buf = [f], ch_closed = False\<rparr>)"
    let ?t = "set_hpc c HReading (s\<lparr>hubst := put_chan c ch (?h\<lparr>clients := insert c (clients ?h)\<rparr>),
      wpc := (wpc s)(c := WRunning)\<rparr>)"
    have run: "do_register c s = Inr (Some ?t)"
      using False by (auto simp: do_register_def register_fresh [OF new] ch_def)
    have buf: "ch_buf ch = (if fanned s = [] then [] else [last (fanned s)])" "\<not> ch_closed ch"
      using sh by (simp_all add: ch_def new_chan_def shape_ok_def newest_def)
    have "hub_inv cf valid ?t"
    proof (rule hub_invI)
      show "panicked ?t = None" using hub_invD(1) [OF inv] by simp
      show "shape_ok cf (hubst ?t) (bpc ?t) (fanned ?t) (published ?t)"
        using sh False by (simp add: shape_ok_def lock_free_fan [OF lf] cap_ok_insert)
      show "conn_ok valid ?t d" for d
      proof (cases "d = c")
        case True
        then show ?thesis
          using k pc client_ok_register [OF _ buf] lock_free_pending [OF lf]
          by (auto simp: conn_ok_def)
      next
        case False
        then show ?thesis
          by (intro conn_ok_frame [OF hub_invD(3) [OF inv, of d]]) simp_all
      qed
    qed
    with run show ?thesis by blast
  qed
qed

lemma do_unregister_inv:
  assumes inv: "hub_inv cf valid s" and pc: "hpc s c = HUnregister" and lf: "lock_free s"
  shows "hub_inv cf valid (crash s (do_unregister c s))"
proof -
  let ?h = "hubst s"
  let ?ch = "sends ?h c"
  note sh = hub_invD(2) [OF inv] and k = hub_invD(3) [OF inv, of c]
  from k pc have reg: "c \<in> clients ?h" and open_ch: "\<not> ch_closed ?ch"
    by (simp_all add: conn_ok_def client_ok_def)
  let ?t = "set_hpc c HDone
    (s\<lparr>hubst := put_chan c (?ch\<lparr>ch_closed := True\<rparr>) (?h\<lparr>clients := clients ?h - {c}\<rparr>)\<rparr>)"
  have run: "crash s (do_unregister c s) = ?t"
    using reg open_ch by (simp add: do_unregister_def unregister_def chan_close_def)
  show ?thesis
    unfolding run
  proof (rule hub_invI)
    show "panicked ?t = None" using hub_invD(1) [OF inv] by simp
    show "shape_ok cf (hubst ?t) (bpc ?t) (fanned ?t) (published ?t)"
      using sh by (simp add: shape_ok_def lock_free_fan [OF lf] cap_ok_remove)
    show "conn_ok valid ?t d" for d
    proof (cases "d = c")
      case True
      then show ?thesis
        using k pc lock_free_pending [OF lf] client_ok_unregister by (auto simp: conn_ok_def)
    next
      case False
      then show ?thesis
        by (intro conn_ok_frame [OF hub_invD(3) [OF inv, of d]]) simp_all
    qed
  qed
qed

lemma read_error_inv:
  assumes inv: "hub_inv cf valid s" and pc: "hpc s c = HReading"
  shows "hub_inv cf valid (set_hpc c HUnregister s)"
  by (rule set_hpc_inv [OF inv])
    (use hub_invD(3) [OF inv, of c] pc in \<open>simp add: conn_ok_def client_ok_read_error\<close>)

lemma conn_step_inv:
  assumes step: "conn_step upgrades valid s t" and inv: "hub_inv cf valid s"
  shows "hub_inv cf valid t"
  using step
proof (cases rule: conn_step.cases)
  case (conn_register c)
  with do_register_inv [OF inv] show ?thesis by force
next
  case (conn_register_panic c p)
  with do_register_inv [OF inv] show ?thesis by force
next
  case (conn_unregister c)
  with do_unregister_inv [OF inv] show ?thesis by simp
next
  case (conn_authorized c)
  moreover have "cfg (hubst s) = cf" using hub_invD(2) [OF inv] by (simp add: shape_ok_def)
  ultimately show ?thesis using early_move_inv [OF inv, of c HRegister] by simp
qed (use inv in \<open>auto intro!: refuse_inv early_move_inv read_error_inv\<close>)

section \<open>The write pumps and the publisher\<close>

lemma pump_stop_inv:
  assumes inv: "hub_inv cf valid s" and w: "wpc s c = WRunning"
  shows "hub_inv cf valid (pump_stop c s)"
proof (rule hub_invI, goal_cases)
  case (3 d)
  show ?case
    using hub_invD(3) [OF inv, of d] w
    by (cases "d = c") (auto simp: conn_ok_def pump_stop_def client_ok_stop)
qed (use hub_invD(1,2) [OF inv] in \<open>simp_all add: pump_stop_def\<close>)

lemma pump_take_shape:
  assumes "shape_ok cf (hubst s) (bpc s) (fanned s) (published s)"
    and "ch_buf (sends (hubst s) c) = msg # rest"
  shows "shape_ok cf (put_chan c ((sends (hubst s) c)\<lparr>ch_buf := rest\<rparr>) (hubst s)) (bpc s) (fanned s)
    (published s)"
  using assms by (cases "bpc s") (auto simp: shape_ok_def pc_simps)

lemma pump_step_inv:
  assumes step: "pump_step s t" and inv: "hub_inv cf valid s"
  shows "hub_inv cf valid t"
  using step
proof (cases rule: pump_step.cases)
  case (pump_write c msg rest)
  show ?thesis
  proof (rule hub_invI, goal_cases)
    case (3 d)
    show ?case
      using hub_invD(3) [OF inv, of d] pump_write client_ok_take(1) [OF _ pump_write(3)]
      by (cases "d = c") (simp_all add: conn_ok_def pump_take_def)
  qed (use hub_invD(1,2) [OF inv] pump_write pump_take_shape in \<open>simp_all add: pump_take_def\<close>)
next
  case (pump_write_error c msg rest)
  show ?thesis
  proof (rule hub_invI, goal_cases)
    case (3 d)
    show ?case
      using hub_invD(3) [OF inv, of d] pump_write_error client_ok_take(2) [OF _ pump_write_error(3)]
      by (cases "d = c") (simp_all add: conn_ok_def pump_take_def pump_stop_def)
  qed (use hub_invD(1,2) [OF inv] pump_write_error pump_take_shape in
      \<open>simp_all add: pump_take_def pump_stop_def\<close>)
qed (use inv pump_stop_inv [OF inv] in simp_all)

lemma publish_step_inv:
  assumes step: "publish_step s t" and inv: "hub_inv cf valid s"
  shows "hub_inv cf valid t"
proof -
  from step obtain frame where b: "broadcast (hubst s) = []"
    and t: "t = s\<lparr>hubst := (hubst s)\<lparr>broadcast := [frame]\<rparr>, published := published s @ [frame]\<rparr>"
    by (auto simp: publish_step_def Publish_def split: if_splits)
  show ?thesis
  proof (rule hub_invI, goal_cases)
    case (3 d)
    show ?case by (rule conn_ok_frame [OF hub_invD(3) [OF inv, of d]]) (simp_all add: t)
  qed (use hub_invD(1,2) [OF inv] in \<open>simp_all add: t b shape_ok_def\<close>)
qed

lemma init_sys_inv: "hub_inv cf valid (init_sys cf)"
  by (simp add: hub_inv_def init_sys_def newHub_def shape_ok_def pc_simps newest_def cap_ok_def
      conn_ok_def client_ok_def new_chan_def)

lemma hub_step_inv: "hub_inv cf valid s \<Longrightarrow> hub_step upgrades valid s t \<Longrightarrow> hub_inv cf valid t"
  unfolding hub_step_def
  by (blast intro: publish_step_inv bcast_step_inv conn_step_inv pump_step_inv)

interpretation hub_system: invariant_system
  "\<lambda>s. s = init_sys cf" "hub_step upgrades valid" "hub_inv cf valid"
  for cf upgrades valid
  by unfold_locales (simp_all add: init_sys_inv hub_step_inv)

text \<open>The states the server can be in when it was started with configuration \<open>cf\<close>.\<close>

definition hub_reachable :: "config \<Rightarrow> (client \<Rightarrow> bool) \<Rightarrow> (client \<Rightarrow> bool) \<Rightarrow> sys \<Rightarrow> bool" where
  "hub_reachable cf upgrades valid s \<longleftrightarrow> (hub_step upgrades valid)\<^sup>*\<^sup>* (init_sys cf) s"

lemma hub_reachable_inv: "hub_reachable cf upgrades valid s \<Longrightarrow> hub_inv cf valid s"
  unfolding hub_reachable_def by (rule hub_system.reachable_inv [OF refl])

end
