(* ===== verification/HubProps.thy ===== *)
theory HubProps
  imports HubInv
begin

text \<open>
  What the hub promises, read off its invariant in every reachable state: it never panics, it keeps
  the cap, it loses and reorders no frame, a client never goes back to an older frame and always
  has the newest one ahead of it, nobody is served without a valid token, and the broadcaster never
  waits for a client.  The witnesses follow one connection through the server.
\<close>

section \<open>One connection, step by step\<close>

text \<open>A server with a cap of one connection that asks for a token.\<close>

definition demo_cfg :: config where
  "demo_cfg = (example_config\<lparr>AuthEnabled := True, MaxWSConnections := 1\<rparr>)"

abbreviation demo_reachable :: "sys \<Rightarrow> bool" where
  "demo_reachable \<equiv> hub_reachable demo_cfg (\<lambda>_. True) (\<lambda>c. c = 0)"

definition demo_registering :: sys where
  "demo_registering = set_hpc 0 HRegister (init_sys demo_cfg)"

definition demo_registered :: sys where
  "demo_registered = set_hpc 0 HReading (demo_registering\<lparr>
     hubst := (newHub demo_cfg)\<lparr>clients := {0}\<rparr>, wpc := (\<lambda>_. WNotStarted)(0 := WRunning)\<rparr>)"

definition demo_published :: sys where
  "demo_published = demo_registered\<lparr>hubst := (hubst demo_registered)\<lparr>broadcast := [''a'']\<rparr>, published := [''a'']\<rparr>"

definition demo_fanned :: sys where
  "demo_fanned = demo_registered\<lparr>
     hubst := put_chan 0 \<lparr>ch_buf = [''a''], ch_closed = False\<rparr> ((hubst demo_registered)\<lparr>lastFanned := Some ''a''\<rparr>),
     published := [''a''], fanned := [''a'']\<rparr>"

definition demo_written :: sys where
  "demo_written = demo_fanned\<lparr>
     hubst := put_chan 0 new_chan (hubst demo_fanned), taken := (\<lambda>_. [])(0 := [''a'']), written := (\<lambda>_. [])(0 := [''a''])\<rparr>"

lemmas demo_defs = demo_registering_def demo_registered_def demo_published_def demo_fanned_def
  demo_written_def init_sys_def newHub_def new_chan_def put_chan_def set_hpc_def demo_cfg_def
  example_config_def

lemma reachable_init: "hub_reachable cf upgrades valid (init_sys cf)"
  by (simp add: hub_reachable_def)

lemma reachable_step:
  assumes "hub_reachable cf upgrades valid s" and "panicked s = None"
    and "publish_step s t \<or> bcast_step s t \<or> conn_step upgrades valid s t \<or> pump_step s t"
  shows "hub_reachable cf upgrades valid t"
proof -
  have "hub_step upgrades valid s t" using assms(2,3) by (simp add: hub_step_def)
  with assms(1) show ?thesis
    unfolding hub_reachable_def by (rule rtranclp.rtrancl_into_rtrancl)
qed

lemma reachable_conn:
  "hub_reachable cf upgrades valid s \<Longrightarrow> conn_step upgrades valid s t \<Longrightarrow> panicked s = None \<Longrightarrow>
   hub_reachable cf upgrades valid t"
  by (blast intro: reachable_step)

lemma reachable_bcast:
  "hub_reachable cf upgrades valid s \<Longrightarrow> bcast_step s t \<Longrightarrow> panicked s = None \<Longrightarrow>
   hub_reachable cf upgrades valid t"
  by (blast intro: reachable_step)

lemma demo_registering_reachable: "demo_reachable demo_registering"
proof -
  let ?s0 = "init_sys demo_cfg"
  let ?s1 = "set_hpc 0 HUpgrade ?s0"
  let ?s2 = "set_hpc 0 HAuth ?s1"
  have 1: "demo_reachable ?s1"
    by (rule reachable_conn [OF reachable_init conn_admit])
      (simp_all add: demo_defs lock_free_def atCapacity_def)
  have 2: "demo_reachable ?s2"
    by (rule reachable_conn [OF 1 conn_upgrade]) (simp_all add: demo_defs)
  have 3: "demo_reachable (set_hpc 0 HRegister ?s2)"
    by (rule reachable_conn [OF 2 conn_authorized]) (simp_all add: demo_defs)
  have "set_hpc 0 HRegister ?s2 = demo_registering"
    by (simp add: demo_registering_def set_hpc_def)
  with 3 show ?thesis by simp
qed

lemma demo_registered_reachable: "demo_reachable demo_registered"
  by (rule reachable_conn [OF demo_registering_reachable conn_register [where c = 0]])
    (simp_all add: demo_defs lock_free_def do_register_def register_def)

lemma demo_published_reachable: "demo_reachable demo_published"
  by (rule reachable_step [OF demo_registered_reachable])
    (simp_all add: publish_step_def Publish_def demo_defs)

lemma demo_fanned_reachable: "demo_reachable demo_fanned"
proof -
  let ?s1 = "demo_published\<lparr>hubst := (hubst demo_published)\<lparr>broadcast := []\<rparr>, bpc := BLock ''a''\<rparr>"
  let ?s2 = "bcast_lock ''a'' ?s1"
  let ?s3 = "crash ?s2 (bcast_first ''a'' 0 {0} ?s2)"
  have 1: "demo_reachable ?s1"
    by (rule reachable_bcast [OF demo_published_reachable bcast_recv]) (simp_all add: demo_defs)
  have 2: "demo_reachable ?s2"
    by (rule reachable_bcast [OF 1 bcast_acquire]) (simp_all add: demo_defs)
  have 3: "demo_reachable ?s3"
    by (rule reachable_bcast [OF 2 bcast_select1]) (simp_all add: demo_defs bcast_lock_def)
  have "demo_reachable (?s3\<lparr>bpc := BWait\<rparr>)"
    by (rule reachable_bcast [OF 3 bcast_release])
      (simp_all add: demo_defs bcast_lock_def bcast_first_def try_send_def chan_send_def)
  moreover have "?s3\<lparr>bpc := BWait\<rparr> = demo_fanned"
    by (simp add: demo_defs bcast_lock_def bcast_first_def try_send_def chan_send_def)
  ultimately show ?thesis by simp
qed

lemma demo_written_reachable: "demo_reachable demo_written"
proof (rule reachable_step [OF demo_fanned_reachable])
  have "pump_step demo_fanned
     ((pump_take 0 ''a'' [] demo_fanned)\<lparr>written := (written demo_fanned)(0 := written demo_fanned 0 @ [''a''])\<rparr>)"
    by (rule pump_write) (simp_all add: demo_defs)
  moreover have "(pump_take 0 ''a'' [] demo_fanned)\<lparr>written := (written demo_fanned)(0 := written demo_fanned 0 @ [''a''])\<rparr>
      = demo_written"
    by (simp add: demo_defs pump_take_def)
  ultimately show "publish_step demo_fanned demo_written \<or> bcast_step demo_fanned demo_written \<or>
      conn_step (\<lambda>_. True) (\<lambda>c. c = 0) demo_fanned demo_written \<or> pump_step demo_fanned demo_written"
    by simp
qed (simp add: demo_defs)

section \<open>Properties of reachable states\<close>

lemma reachable_client:
  assumes "hub_reachable cf upgrades valid s"
  shows "client_ok (AuthEnabled cf) (valid c) (hpc s c) (wpc s c) (sends (hubst s) c) (taken s c)
    (written s c) (c \<in> clients (hubst s)) (c \<in> pending (bpc s)) (fanned s)"
proof -
  have "cfg (hubst s) = cf"
    using hub_invD(2) [OF hub_reachable_inv [OF assms]] by (simp add: shape_ok_def)
  then show ?thesis
    using hub_invD(3) [OF hub_reachable_inv [OF assms], of c] by (simp add: conn_ok_def)
qed

text \<open>
  C4: whatever the interleaving of the publisher, the broadcaster, the connection handlers and the
  write pumps, the hub never panics: nothing is sent on a closed channel and no channel is closed
  twice.
\<close>

theorem hub_no_panic:
  assumes "hub_reachable cf upgrades valid s"
  shows "panicked s = None"
  using hub_invD(1) [OF hub_reachable_inv [OF assms]] .

theorem hub_no_panic_witness: "demo_reachable demo_written \<and> panicked demo_written = None"
  using demo_written_reachable hub_no_panic [OF demo_written_reachable] by blast

text \<open>
  C32: the connection cap holds in every reachable state: with a positive cap there are never more
  registered clients than it allows, and they are exactly the connections whose handler is in its
  read loop or about to unregister.
\<close>

theorem hub_capacity:
  assumes "hub_reachable cf upgrades valid s" and "0 < MaxWSConnections cf"
  shows "finite (clients (hubst s)) \<and> int (card (clients (hubst s))) \<le> MaxWSConnections cf \<and>
    clients (hubst s) = {c. hpc s c = HReading \<or> hpc s c = HUnregister}"
  using hub_invD(2) [OF hub_reachable_inv [OF assms(1)]] assms(2) reachable_client [OF assms(1)]
  by (auto simp: shape_ok_def cap_ok_def client_ok_def)

theorem hub_capacity_witness:
  "demo_reachable demo_registered \<and> MaxWSConnections demo_cfg = 1 \<and>
   int (card (clients (hubst demo_registered))) \<le> 1 \<and> clients (hubst demo_registered) = {0}"
proof -
  have "MaxWSConnections demo_cfg = 1" "clients (hubst demo_registered) = {0}"
    by (simp_all add: demo_defs)
  with demo_registered_reachable conjunct1 [OF conjunct2 [OF hub_capacity [OF demo_registered_reachable]]]
  show ?thesis by simp
qed

text \<open>
  C5: no frame is lost, duplicated or reordered on the way to the fan-out (the published frames are
  the fanned-out ones, then the one the broadcaster has received, then the one in the channel), and
  no client ever goes back to an older snapshot: what its pump has written is a prefix of what it
  took, which together with its buffer is a subsequence of the fanned-out frames.
\<close>

theorem hub_frames_in_order:
  assumes "hub_reachable cf upgrades valid s"
  shows "published s = fanned s @ waiting (bpc s) @ broadcast (hubst s) \<and>
    length (broadcast (hubst s)) \<le> 1 \<and>
    prefix (written s c) (taken s c) \<and> length (ch_buf (sends (hubst s) c)) \<le> 1 \<and>
    subseq (taken s c @ ch_buf (sends (hubst s) c)) (fanned s)"
proof -
  have "prefix (written s c) (taken s c)" "length (ch_buf (sends (hubst s) c)) \<le> 1"
    "subseq (taken s c @ ch_buf (sends (hubst s) c)) (fanned s)"
    using client_ok_frames [OF reachable_client [OF assms, of c]] by blast+
  then show ?thesis
    using hub_invD(2) [OF hub_reachable_inv [OF assms]] by (simp add: shape_ok_def)
qed

theorem hub_frames_in_order_witness:
  "demo_reachable demo_written \<and> written demo_written 0 = [''a''] \<and>
   prefix (written demo_written 0) (taken demo_written 0) \<and> published demo_written = fanned demo_written"
  using demo_written_reachable hub_frames_in_order [OF demo_written_reachable, of 0]
  by (simp add: demo_defs waiting_def)

text \<open>
  C6: outside a fan-out every registered client has the newest frame: it is the last one it took,
  or it waits in the client's buffer.  During a fan-out the same holds of every client that the
  broadcaster has already served.
\<close>

theorem hub_latest_wins:
  assumes "hub_reachable cf upgrades valid s" and "c \<in> clients (hubst s)" and "c \<notin> pending (bpc s)"
    and "fanned s \<noteq> []"
  shows "taken s c @ ch_buf (sends (hubst s) c) \<noteq> [] \<and>
    last (taken s c @ ch_buf (sends (hubst s) c)) = last (fanned s)"
  using client_ok_latest [OF reachable_client [OF assms(1), of c] assms(2-4)] .

theorem hub_latest_wins_witness:
  "demo_reachable demo_fanned \<and> last (taken demo_fanned 0 @ ch_buf (sends (hubst demo_fanned) 0)) = ''a''"
  using demo_fanned_reachable hub_latest_wins [OF demo_fanned_reachable, of 0]
  by (simp add: demo_defs pending_def)

text \<open>
  With authentication enabled no data reaches a connection without a valid token: such a
  connection is never registered, and nothing is ever queued for it, taken or written.
\<close>

theorem hub_auth:
  assumes "hub_reachable cf upgrades valid s" and "AuthEnabled cf" and "\<not> valid c"
  shows "c \<notin> clients (hubst s) \<and> ch_buf (sends (hubst s) c) = [] \<and> taken s c = [] \<and> written s c = []"
  using reachable_client [OF assms(1), of c] assms(2,3) by (auto simp: client_ok_def)

theorem hub_auth_witness:
  "demo_reachable demo_fanned \<and> AuthEnabled demo_cfg \<and> 7 \<notin> clients (hubst demo_fanned) \<and>
   written demo_fanned 7 = []"
  using demo_fanned_reachable hub_auth [OF demo_fanned_reachable, of 7] by (simp add: demo_defs)

text \<open>
  Registration never blocks while it holds the lock.  In every reachable state in which a
  handler registers its connection, it is refused and the hub left alone when the cap is reached,
  and otherwise the client becomes a member and finds the newest fanned-out frame, if there is one,
  in its buffer.
\<close>

theorem hub_register_seeds:
  assumes "hub_reachable cf upgrades valid s" and "hpc s c = HRegister"
  shows "\<exists>ok h. register c (hubst s) = Inr (Some (ok, h)) \<and>
    (if atCapacity (hubst s) then \<not> ok \<and> h = hubst s
     else ok \<and> clients h = insert c (clients (hubst s)) \<and>
       ch_buf (sends h c) = (if fanned s = [] then [] else [last (fanned s)]))"
proof -
  have "sends (hubst s) c = new_chan"
    using client_ok_early(3) [OF reachable_client [OF assms(1), of c]] assms(2) by simp
  moreover have "lastFanned (hubst s) = newest (fanned s)"
    using hub_invD(2) [OF hub_reachable_inv [OF assms(1)]] by (simp add: shape_ok_def)
  ultimately show ?thesis
    by (auto simp: register_fresh atCapacity_def newest_def new_chan_def)
qed

theorem hub_register_seeds_witness:
  "\<exists>ok h. register 0 (hubst demo_registering) = Inr (Some (ok, h)) \<and> ok \<and> clients h = {0}"
  using hub_register_seeds [OF demo_registering_reachable, of 0]
  by (auto simp: demo_defs atCapacity_def)

text \<open>
  Unregistering frees the slot.  When the read loop of a connection has ended, \<open>unregister\<close>
  succeeds, removes that client only, closes its channel and leaves the hub below its cap.
\<close>

theorem hub_unregister_frees_slot:
  assumes "hub_reachable cf upgrades valid s" and "hpc s c = HUnregister"
  shows "\<exists>h. unregister c (hubst s) = Inr h \<and> clients h = clients (hubst s) - {c} \<and>
    ch_closed (sends h c) \<and> (\<forall>d. d \<noteq> c \<longrightarrow> sends h d = sends (hubst s) d) \<and> \<not> atCapacity h"
proof -
  have c: "c \<in> clients (hubst s)" "\<not> ch_closed (sends (hubst s) c)"
    using reachable_client [OF assms(1), of c] assms(2) by (simp_all add: client_ok_def)
  have cap: "cap_ok (maxClients (hubst s)) (clients (hubst s))"
    using hub_invD(2) [OF hub_reachable_inv [OF assms(1)]] by (simp add: shape_ok_def)
  have "card (clients (hubst s) - {c}) < card (clients (hubst s))"
    by (rule card_Diff1_less) (use c(1) cap in \<open>simp_all add: cap_ok_def\<close>)
  with cap have "\<not> (0 < maxClients (hubst s) \<and> maxClients (hubst s) \<le> int (card (clients (hubst s) - {c})))"
    by (auto simp: cap_ok_def)
  then show ?thesis using c by (auto simp: unregister_def chan_close_def atCapacity_def)
qed

theorem hub_unregister_frees_slot_witness:
  "\<exists>h. unregister 0 (hubst (set_hpc 0 HUnregister demo_registered)) = Inr h \<and> \<not> atCapacity h"
proof -
  have "demo_reachable (set_hpc 0 HUnregister demo_registered)"
    by (rule reachable_conn [OF demo_registered_reachable conn_read_error]) (simp_all add: demo_defs)
  from hub_unregister_frees_slot [OF this, of 0] show ?thesis by auto
qed

text \<open>The history of fanned-out frames only grows.\<close>

lemma bcast_fanned: "bcast_step s t \<Longrightarrow> prefix (fanned s) (fanned t)"
  by (induction rule: bcast_step.induct)
    (auto simp: bcast_lock_def bcast_drop_def crash_def bcast_first_def bcast_last_def split: sum.splits)

lemma do_register_fanned: "do_register c s = Inr (Some t) \<Longrightarrow> fanned t = fanned s"
  by (auto simp: do_register_def refuse_def dest!: sym [of "Some t"])

lemma conn_fanned: "conn_step upgrades valid s t \<Longrightarrow> fanned t = fanned s"
  by (induction rule: conn_step.induct)
    (simp_all add: refuse_def crash_def do_unregister_def go_map_def do_register_fanned split: sum.split)

lemma pump_fanned: "pump_step s t \<Longrightarrow> fanned t = fanned s"
  by (induction rule: pump_step.induct) (simp_all add: pump_take_def pump_stop_def)

lemma hub_step_fanned: "hub_step upgrades valid s t \<Longrightarrow> prefix (fanned s) (fanned t)"
  by (auto simp: hub_step_def publish_step_def dest: bcast_fanned conn_fanned pump_fanned)

lemma hub_ready_iff: "hub_inv cf valid s \<Longrightarrow> Ready (hubst s) \<longleftrightarrow> fanned s \<noteq> []"
  using hub_invD(2) [of cf valid s] by (simp add: Ready_def shape_ok_def newest_def)

text \<open>
  Readiness does not flap: once a snapshot has been fanned out, \<open>Ready\<close> stays true whatever
  happens afterwards, and it is true exactly when some frame has been fanned out.
\<close>

theorem hub_ready_stable:
  assumes "hub_reachable cf upgrades valid s" and "(hub_step upgrades valid)\<^sup>*\<^sup>* s t"
  shows "(Ready (hubst s) \<longleftrightarrow> fanned s \<noteq> []) \<and> (Ready (hubst s) \<longrightarrow> Ready (hubst t))"
proof -
  have "fanned s \<noteq> [] \<longrightarrow> fanned t \<noteq> []"
    using assms(2) by (induction rule: rtranclp_induct) (auto dest: hub_step_fanned)
  moreover have "hub_inv cf valid s" by (rule hub_reachable_inv [OF assms(1)])
  moreover from this assms(2) have "hub_inv cf valid t" by (blast intro: hub_system.steps_inv)
  ultimately show ?thesis using hub_ready_iff by blast
qed

theorem hub_ready_stable_witness:
  "demo_reachable demo_fanned \<and> Ready (hubst demo_fanned) \<and> (hub_step (\<lambda>_. True) (\<lambda>c. c = 0))\<^sup>*\<^sup>* demo_fanned demo_fanned"
  using hub_ready_stable [OF demo_fanned_reachable rtranclp.rtrancl_refl] demo_fanned_reachable
  by (simp add: demo_defs)

text \<open>
  The handoff to one client replaces what waits there: on an open channel \<open>enqueue\<close> always
  succeeds and leaves exactly the new frame in the buffer, whether it was empty or full.
\<close>

theorem enqueue_replaces:
  assumes "\<not> ch_closed ch" and "length (ch_buf ch) \<le> 1"
  shows "enqueue msg ch = Inr (ch\<lparr>ch_buf := [msg]\<rparr>)"
  using assms
  by (cases "ch_buf ch") (simp_all add: enqueue_def try_send_open try_drop_def)

theorem enqueue_replaces_witness:
  "enqueue ''b'' \<lparr>ch_buf = [''a''], ch_closed = False\<rparr> = Inr \<lparr>ch_buf = [''b''], ch_closed = False\<rparr>"
  using enqueue_replaces [of "\<lparr>ch_buf = [''a''], ch_closed = False\<rparr>" "''b''"] by simp

section \<open>The broadcaster never waits for a client\<close>

text \<open>What a stretch of fan-out steps leaves alone.\<close>

definition same_frames :: "sys \<Rightarrow> sys \<Rightarrow> bool" where
  "same_frames s t \<longleftrightarrow> published t = published s \<and> fanned t = fanned s \<and>
     broadcast (hubst t) = broadcast (hubst s)"

lemma bcast_steps_inv: "bcast_step\<^sup>*\<^sup>* s t \<Longrightarrow> hub_inv cf valid s \<Longrightarrow> hub_inv cf valid t"
  by (induction rule: rtranclp_induct) (auto intro: bcast_step_inv)

lemma bcast_last_step:
  assumes inv: "hub_inv cf valid s" and pc: "bpc s = BDrained msg c todo"
  shows "\<exists>t. bcast_step s t \<and> bpc t = BFan msg todo \<and> same_frames s t"
proof -
  have "\<not> ch_closed (sends (hubst s) c)" using pending_open [OF inv] pc by (simp add: pending_def)
  then have "bpc (crash s (bcast_last msg c todo s)) = BFan msg todo"
    "same_frames s (crash s (bcast_last msg c todo s))"
    by (simp_all add: bcast_last_def try_send_open same_frames_def)
  with bcast_select3 [OF pc] show ?thesis by blast
qed

lemma bcast_full_steps:
  assumes inv: "hub_inv cf valid s" and pc: "bpc s = BFull msg c todo"
  shows "\<exists>t. bcast_step\<^sup>*\<^sup>* s t \<and> bpc t = BFan msg todo \<and> same_frames s t"
proof -
  let ?u = "bcast_drop msg c todo s"
  have "bpc ?u = BDrained msg c todo" "same_frames s ?u"
    by (simp_all add: bcast_drop_def same_frames_def)
  with bcast_last_step [OF bcast_drop_inv [OF inv pc]]
  obtain t where "bcast_step ?u t" "bpc t = BFan msg todo" "same_frames s t"
    unfolding same_frames_def by force
  with bcast_select2 [OF pc] show ?thesis by (meson r_into_rtranclp rtranclp.rtrancl_into_rtrancl)
qed

lemma bcast_one_client:
  assumes inv: "hub_inv cf valid s" and pc: "bpc s = BFan msg todo" and c: "c \<in> todo"
  shows "\<exists>t. bcast_step\<^sup>*\<^sup>* s t \<and> bpc t = BFan msg (todo - {c}) \<and> same_frames s t"
proof -
  let ?u = "crash s (bcast_first msg c todo s)"
  have "\<not> ch_closed (sends (hubst s) c)" using pending_open [OF inv] pc c by (simp add: pending_def)
  then consider "bpc ?u = BFan msg (todo - {c})" "same_frames s ?u"
    | "bpc ?u = BFull msg c (todo - {c})" "same_frames s ?u"
    by (cases "ch_buf (sends (hubst s) c) = []")
      (simp_all add: bcast_first_def try_send_open same_frames_def)
  then show ?thesis
  proof cases
    case 1
    with bcast_select1 [OF pc c] show ?thesis by blast
  next
    case 2
    with bcast_full_steps [OF bcast_first_inv [OF inv pc c]]
    obtain t where "bcast_step\<^sup>*\<^sup>* ?u t" "bpc t = BFan msg (todo - {c})" "same_frames s t"
      unfolding same_frames_def by force
    with bcast_select1 [OF pc c] show ?thesis by (meson converse_rtranclp_into_rtranclp)
  qed
qed

lemma bcast_all_clients:
  assumes "finite todo" and "hub_inv cf valid s" and "bpc s = BFan msg todo"
  shows "\<exists>t. bcast_step\<^sup>*\<^sup>* s t \<and> bpc t = BWait \<and> same_frames s t"
  using assms
proof (induction "card todo" arbitrary: todo s)
  case 0
  then have "bcast_step s (s\<lparr>bpc := BWait\<rparr>)" by (auto intro: bcast_release)
  then have "bcast_step\<^sup>*\<^sup>* s (s\<lparr>bpc := BWait\<rparr>)" by (rule r_into_rtranclp)
  moreover have "same_frames s (s\<lparr>bpc := BWait\<rparr>)" by (simp add: same_frames_def)
  ultimately show ?case by (intro exI [of _ "s\<lparr>bpc := BWait\<rparr>"]) simp
next
  case (Suc n)
  then obtain c where c: "c \<in> todo" by fastforce
  with bcast_one_client [OF Suc.prems(2,3)] obtain u where
    u: "bcast_step\<^sup>*\<^sup>* s u" "bpc u = BFan msg (todo - {c})" "same_frames s u" by blast
  have "n = card (todo - {c})" using Suc(2) Suc.prems(1) c by simp
  from Suc(1) [OF this _ bcast_steps_inv [OF u(1) Suc.prems(2)] u(2)] Suc.prems(1)
  obtain t where "bcast_step\<^sup>*\<^sup>* u t" "bpc t = BWait" "same_frames u t" by blast
  with u show ?case unfolding same_frames_def by (metis rtranclp_trans)
qed

lemma fan_finite: "hub_inv cf valid s \<Longrightarrow> finite (pending (bpc s))"
proof -
  assume inv: "hub_inv cf valid s"
  then have "finite (clients (hubst s))" using hub_invD(2) [OF inv] by (simp add: shape_ok_def cap_ok_def)
  moreover have "pending (bpc s) \<subseteq> clients (hubst s)"
    using hub_invD(3) [OF inv] by (auto simp: conn_ok_def client_ok_def)
  ultimately show ?thesis by (rule rev_finite_subset)
qed

text \<open>From any point the broadcaster gets back to its receive; a frame it holds is fanned out.\<close>

lemma bcast_finish:
  assumes inv: "hub_inv cf valid s"
  shows "\<exists>t. bcast_step\<^sup>*\<^sup>* s t \<and> bpc t = BWait \<and> published t = published s \<and>
    broadcast (hubst t) = broadcast (hubst s)"
proof (cases "bpc s")
  case BWait
  then show ?thesis by blast
next
  case (BLock msg)
  let ?u = "bcast_lock msg s"
  have u: "hub_inv cf valid ?u" by (rule bcast_lock_inv [OF inv BLock])
  from fan_finite [OF u] have "finite (clients (hubst s))" by (simp add: bcast_lock_def pending_def)
  from bcast_all_clients [OF this u, of msg] obtain t where
    t: "bcast_step\<^sup>*\<^sup>* ?u t" "bpc t = BWait" "same_frames ?u t" by (auto simp: bcast_lock_def)
  from bcast_acquire [OF BLock] t(1) have "bcast_step\<^sup>*\<^sup>* s t" by (rule converse_rtranclp_into_rtranclp)
  with t(2,3) show ?thesis by (auto simp: bcast_lock_def same_frames_def)
next
  case (BFan msg todo)
  then have "finite todo" using fan_finite [OF inv] by (simp add: pending_def)
  from bcast_all_clients [OF this inv BFan] show ?thesis by (auto simp: same_frames_def)
next
  case (BFull msg c todo)
  then have fin: "finite todo" using fan_finite [OF inv] by (simp add: pending_def)
  from bcast_full_steps [OF inv BFull] obtain u where
    u: "bcast_step\<^sup>*\<^sup>* s u" "bpc u = BFan msg todo" "same_frames s u" by blast
  from bcast_all_clients [OF fin bcast_steps_inv [OF u(1) inv] u(2)] obtain t where
    t: "bcast_step\<^sup>*\<^sup>* u t" "bpc t = BWait" "same_frames u t" by blast
  from rtranclp_trans [OF u(1) t(1)] t(2,3) u(3) show ?thesis by (auto simp: same_frames_def)
next
  case (BDrained msg c todo)
  then have fin: "finite todo" using fan_finite [OF inv] by (simp add: pending_def)
  from bcast_last_step [OF inv BDrained] obtain u where
    u: "bcast_step s u" "bpc u = BFan msg todo" "same_frames s u" by blast
  from bcast_all_clients [OF fin bcast_step_inv [OF u(1) inv] u(2)] obtain t where
    t: "bcast_step\<^sup>*\<^sup>* u t" "bpc t = BWait" "same_frames u t" by blast
  from converse_rtranclp_into_rtranclp [OF u(1) t(1)] t(2,3) u(3)
  show ?thesis by (auto simp: same_frames_def)
qed

lemma bcast_drain:
  assumes inv: "hub_inv cf valid s"
  shows "\<exists>t. bcast_step\<^sup>*\<^sup>* s t \<and> bpc t = BWait \<and> broadcast (hubst t) = [] \<and> published t = published s"
proof -
  obtain u where u: "bcast_step\<^sup>*\<^sup>* s u" "bpc u = BWait" "published u = published s"
    using bcast_finish [OF inv] by blast
  have invu: "hub_inv cf valid u" by (rule bcast_steps_inv [OF u(1) inv])
  show ?thesis
  proof (cases "broadcast (hubst u)")
    case Nil
    with u show ?thesis by blast
  next
    case (Cons msg rest)
    then have rest: "rest = []" using hub_invD(2) [OF invu] by (simp add: shape_ok_def)
    let ?v = "u\<lparr>hubst := (hubst u)\<lparr>broadcast := rest\<rparr>, bpc := BLock msg\<rparr>"
    have v: "hub_inv cf valid ?v" by (rule bcast_recv_inv [OF invu u(2) Cons])
    obtain t where t: "bcast_step\<^sup>*\<^sup>* ?v t" "bpc t = BWait" "published t = published u"
      "broadcast (hubst t) = []"
      using bcast_finish [OF v] rest by auto
    have "bcast_step\<^sup>*\<^sup>* u t"
      using bcast_recv [OF u(2) Cons] t(1) by (rule converse_rtranclp_into_rtranclp)
    with u t show ?thesis by (metis rtranclp_trans)
  qed
qed

text \<open>
  The broadcaster never blocks on a client: from every reachable state its own steps alone, with
  no write pump receiving anything, lead to a state in which everything published has been fanned
  out and every registered client has the newest frame.
\<close>

theorem hub_broadcast_progress:
  assumes "hub_reachable cf upgrades valid s"
  shows "\<exists>t. bcast_step\<^sup>*\<^sup>* s t \<and> bpc t = BWait \<and> fanned t = published s \<and>
    (\<forall>c. c \<in> clients (hubst t) \<and> published s \<noteq> [] \<longrightarrow>
       last (taken t c @ ch_buf (sends (hubst t) c)) = last (published s))"
proof -
  note inv = hub_reachable_inv [OF assms]
  from bcast_drain [OF inv] obtain t where t: "bcast_step\<^sup>*\<^sup>* s t" "bpc t = BWait"
    "broadcast (hubst t) = []" "published t = published s" by blast
  have invt: "hub_inv cf valid t" by (rule bcast_steps_inv [OF t(1) inv])
  then have all: "fanned t = published s"
    using hub_invD(2) [OF invt] t by (simp add: shape_ok_def waiting_def)
  have "last (taken t c @ ch_buf (sends (hubst t) c)) = last (published s)"
    if "c \<in> clients (hubst t)" "published s \<noteq> []" for c
    using client_ok_latest [OF hub_invD(3) [OF invt, of c, unfolded conn_ok_def] that(1)] that all t(2)
    by (simp add: pending_def)
  with t all show ?thesis by blast
qed

theorem hub_broadcast_progress_witness:
  "\<exists>t. bcast_step\<^sup>*\<^sup>* demo_published t \<and> bpc t = BWait \<and> fanned t = [''a'']"
  using hub_broadcast_progress [OF demo_published_reachable] by (auto simp: demo_published_def)

end
