(* ===== verification/HubBound.thy ===== *)
theory HubBound
  imports HubProps
begin

text \<open>
  The broadcaster's fan-out terminates: a measure on the hub and the broadcaster's program counter
  that each of its steps decreases, and the explicit bound that follows.
\<close>

text \<open>Steps the broadcaster has left in the fan-out it is in, at three per client.\<close>

definition fan_work :: "nat \<Rightarrow> bcast_pc \<Rightarrow> nat" where
  "fan_work n p =
     (case p of
        BWait \<Rightarrow> 0
      | BLock msg \<Rightarrow> 3 * n + 2
      | BFan msg todo \<Rightarrow> 3 * card todo + 1
      | BFull msg c todo \<Rightarrow> 3 * card todo + 3
      | BDrained msg c todo \<Rightarrow> 3 * card todo + 2)"

definition bcast_work :: "sys \<Rightarrow> nat" where
  "bcast_work s =
     length (broadcast (hubst s)) * (3 * card (clients (hubst s)) + 3) +
     fan_work (card (clients (hubst s))) (bpc s)"

lemma try_send_unclosed:
  "\<not> ch_closed ch \<Longrightarrow> \<exists>sent ch'. try_send x ch = Inr (sent, ch')"
  by (auto simp: try_send_def chan_send_def)

lemma bcast_step_work:
  assumes "bcast_step s t" and inv: "hub_inv cf valid s"
  shows "Suc (bcast_work t) \<le> bcast_work s"
  using assms(1)
proof cases
  case (bcast_recv msg rest)
  then show ?thesis by (simp add: bcast_work_def fan_work_def)
next
  case (bcast_acquire msg)
  then show ?thesis by (simp add: bcast_work_def fan_work_def bcast_lock_def)
next
  case (bcast_select1 msg todo c)
  have "finite todo" using fan_finite [OF inv] bcast_select1 by (simp add: pending_def)
  then have "card todo = Suc (card (todo - {c}))" using bcast_select1(3) by (metis card_Suc_Diff1)
  moreover have "\<not> ch_closed (sends (hubst s) c)"
    using pending_open [OF inv] bcast_select1 by (simp add: pending_def)
  from try_send_unclosed [OF this] obtain sent ch where "try_send msg (sends (hubst s) c) = Inr (sent, ch)" by blast
  ultimately show ?thesis
    using bcast_select1 by (simp add: bcast_work_def fan_work_def bcast_first_def crash_def)
next
  case (bcast_select2 msg c todo)
  then show ?thesis by (simp add: bcast_work_def fan_work_def bcast_drop_def)
next
  case (bcast_select3 msg c todo)
  have "\<not> ch_closed (sends (hubst s) c)"
    using pending_open [OF inv] bcast_select3 by (simp add: pending_def)
  from try_send_unclosed [OF this] obtain sent ch where "try_send msg (sends (hubst s) c) = Inr (sent, ch)" by blast
  then show ?thesis
    using bcast_select3 by (simp add: bcast_work_def fan_work_def bcast_last_def crash_def)
next
  case (bcast_release msg)
  then show ?thesis by (simp add: bcast_work_def fan_work_def)
qed

lemma bcast_steps_work:
  "(bcast_step ^^ n) s t \<Longrightarrow> hub_inv cf valid s \<Longrightarrow> n + bcast_work t \<le> bcast_work s \<and> hub_inv cf valid t"
proof (induction n arbitrary: t)
  case 0
  then show ?case by simp
next
  case (Suc n)
  then obtain u where u: "(bcast_step ^^ n) s u" "bcast_step u t" by auto
  with Suc have "n + bcast_work u \<le> bcast_work s" "hub_inv cf valid u" by blast+
  with bcast_step_work [OF u(2)] bcast_step_inv [OF u(2)] show ?case by fastforce
qed

lemma fan_work_bound:
  assumes inv: "hub_inv cf valid s"
  shows "fan_work (card (clients (hubst s))) (bpc s) \<le> 3 * card (clients (hubst s)) + 2"
proof -
  have fin: "finite (clients (hubst s))" using hub_invD(2) [OF inv] by (simp add: shape_ok_def cap_ok_def)
  have "pending (bpc s) \<subseteq> clients (hubst s)"
    using hub_invD(3) [OF inv] by (auto simp: conn_ok_def client_ok_def)
  then have "card (pending (bpc s)) \<le> card (clients (hubst s))" using fin by (rule card_mono [rotated])
  moreover have "fan_ok (bpc s) (fanned s) (sends (hubst s))"
    using hub_invD(2) [OF inv] by (simp add: shape_ok_def)
  ultimately show ?thesis
    using fan_finite [OF inv] by (cases "bpc s") (auto simp: fan_work_def pending_def fan_ok_def)
qed

lemma bcast_stuck: "(\<nexists>t. bcast_step s t) \<Longrightarrow> bpc s = BWait \<and> broadcast (hubst s) = []"
proof (cases "bpc s")
  case BWait
  assume "\<nexists>t. bcast_step s t"
  with BWait bcast_recv [OF BWait] show ?thesis by (cases "broadcast (hubst s)") blast+
next
  case (BFan msg todo)
  assume "\<nexists>t. bcast_step s t"
  with BFan bcast_release [of s msg] bcast_select1 [OF BFan] show ?thesis by (cases "todo = {}") blast+
qed (blast intro: bcast_acquire bcast_select2 bcast_select3)+

lemma bcast_steps_published: "(bcast_step ^^ n) s t \<Longrightarrow> published t = published s"
proof (induction n arbitrary: t)
  case (Suc n)
  then obtain u where "(bcast_step ^^ n) s u" "bcast_step u t" by auto
  moreover from this(2) have "published t = published u"
    by cases (auto simp: bcast_lock_def bcast_drop_def bcast_first_def bcast_last_def crash_def go_map_def split: sum.split)
  ultimately show ?case using Suc.IH by simp
qed simp

text \<open>
  C13: the fan-out terminates whatever the clients do: with \<open>n\<close> registered clients, the broadcaster
  makes at most \<open>6 * n + 5\<close> steps of its own before it waits for the next publication (at most three
  per client and frame, with one frame in hand and one in the channel), and it stops only when every
  published frame has been fanned out.
\<close>

theorem hub_broadcast_terminates:
  assumes "hub_reachable cf upgrades valid s" and "(bcast_step ^^ n) s t"
  shows "n \<le> 6 * card (clients (hubst s)) + 5 \<and>
    ((\<nexists>u. bcast_step t u) \<longrightarrow> bpc t = BWait \<and> fanned t = published s)"
proof
  note inv = hub_reachable_inv [OF assms(1)]
  have work: "n + bcast_work t \<le> bcast_work s" and invt: "hub_inv cf valid t"
    using bcast_steps_work [OF assms(2) inv] by blast+
  have "length (broadcast (hubst s)) \<le> 1" using hub_invD(2) [OF inv] by (simp add: shape_ok_def)
  then have "length (broadcast (hubst s)) * (3 * card (clients (hubst s)) + 3) \<le> 3 * card (clients (hubst s)) + 3"
    by (cases "broadcast (hubst s)") simp_all
  then have "bcast_work s \<le> 6 * card (clients (hubst s)) + 5"
    unfolding bcast_work_def using fan_work_bound [OF inv] by linarith
  with work show "n \<le> 6 * card (clients (hubst s)) + 5" by linarith
  show "(\<nexists>u. bcast_step t u) \<longrightarrow> bpc t = BWait \<and> fanned t = published s"
  proof
    assume "\<nexists>u. bcast_step t u"
    from bcast_stuck [OF this] show "bpc t = BWait \<and> fanned t = published s"
      using hub_invD(2) [OF invt] bcast_steps_published [OF assms(2)] by (simp add: shape_ok_def waiting_def)
  qed
qed

theorem hub_broadcast_terminates_witness:
  "\<exists>t. (bcast_step ^^ 1) demo_published t \<and> 1 \<le> 6 * card (clients (hubst demo_published)) + 5"
proof -
  have "\<exists>t. bcast_step demo_published t"
    using bcast_stuck [of demo_published] by (auto simp: demo_defs)
  then obtain t where t: "(bcast_step ^^ 1) demo_published t" by auto
  with hub_broadcast_terminates [OF demo_published_reachable t] show ?thesis by blast
qed

end
