(* ===== verification/System.thy ===== *)
theory System
  imports InspectProps HubBound
begin

text \<open>
  The process as \<open>RegisterDockerHandlers\<close> starts it: the inspector goroutine and the goroutines of the
  hub, connected by \<open>hub.Publish\<close>.  The inspector waits in \<open>Publish\<close> while the channel is full, so it
  does not poll again before its frame has been accepted.  The whole is shown to implement an
  abstract feed: a log of clean snapshots from which each authorised client reads forward.
\<close>

section \<open>The composed system\<close>

record 'o process =
  pr_started :: bool
  pr_inspector :: "'o inspector"
  pr_hub :: sys

definition init_process :: "config \<Rightarrow> 'o process" where
  "init_process c = \<lparr>pr_started = False, pr_inspector = new_inspector, pr_hub = init_sys c\<rparr>"

inductive process_step ::
  "'o api_view \<Rightarrow> (goval \<Rightarrow> string option) \<Rightarrow> config \<Rightarrow> (client \<Rightarrow> bool) \<Rightarrow> (client \<Rightarrow> bool)
     \<Rightarrow> 'o process \<Rightarrow> 'o process \<Rightarrow> bool" for api marshal c upgrades valid where
  proc_start: "\<not> pr_started w \<Longrightarrow> inspect_start api marshal c st \<Longrightarrow>
     process_step api marshal c upgrades valid w (w\<lparr>pr_started := True, pr_inspector := st\<rparr>)"
| proc_poll: "pr_started w \<Longrightarrow> outbox (pr_inspector w) = published (pr_hub w) \<Longrightarrow>
     inspect_step api marshal c (pr_inspector w) st \<Longrightarrow>
     process_step api marshal c upgrades valid w (w\<lparr>pr_inspector := st\<rparr>)"
| proc_publish: "outbox (pr_inspector w) = published (pr_hub w) @ frame # rest \<Longrightarrow>
     panicked (pr_hub w) = None \<Longrightarrow> Publish frame (hubst (pr_hub w)) = Some h \<Longrightarrow>
     process_step api marshal c upgrades valid w
       (w\<lparr>pr_hub := (pr_hub w)\<lparr>hubst := h, published := published (pr_hub w) @ [frame]\<rparr>\<rparr>)"
| proc_hub: "panicked (pr_hub w) = None \<Longrightarrow>
     bcast_step (pr_hub w) s \<or> conn_step upgrades valid (pr_hub w) s \<or> pump_step (pr_hub w) s \<Longrightarrow>
     process_step api marshal c upgrades valid w (w\<lparr>pr_hub := s\<rparr>)"

section \<open>The abstract feed\<close>

record feed =
  f_log :: "string list"
  f_seen :: "client \<Rightarrow> string list"

definition feed_init :: "feed \<Rightarrow> bool" where
  "feed_init a \<longleftrightarrow> f_log a = [] \<and> (\<forall>k. f_seen a k = [])"

text \<open>
  A clean snapshot is logged; or a client that may read receives a snapshot of the log that lies
  ahead of what it has seen.
\<close>

inductive feed_step :: "(string \<Rightarrow> bool) \<Rightarrow> (client \<Rightarrow> bool) \<Rightarrow> feed \<Rightarrow> feed \<Rightarrow> bool" for clean may where
  feed_log: "clean f \<Longrightarrow> feed_step clean may a (a\<lparr>f_log := f_log a @ [f]\<rparr>)"
| feed_deliver: "may k \<Longrightarrow> subseq (f_seen a k @ [f]) (f_log a) \<Longrightarrow>
     feed_step clean may a (a\<lparr>f_seen := (f_seen a)(k := f_seen a k @ [f])\<rparr>)"

definition feed_of :: "'o process \<Rightarrow> feed" where
  "feed_of w = \<lparr>f_log = outbox (pr_inspector w), f_seen = written (pr_hub w)\<rparr>"

section \<open>The invariant\<close>

definition process_inv ::
  "'o api_view \<Rightarrow> (goval \<Rightarrow> string option) \<Rightarrow> config \<Rightarrow> (client \<Rightarrow> bool) \<Rightarrow> 'o process \<Rightarrow> bool" where
  "process_inv api marshal c valid w \<longleftrightarrow>
     hub_inv c valid (pr_hub w) \<and> prefix (published (pr_hub w)) (outbox (pr_inspector w)) \<and>
     (if pr_started w then inspect_inv api marshal c (pr_inspector w) else pr_inspector w = new_inspector)"

text \<open>Refreshing sends nothing; publishing sends at most one frame.\<close>

lemma store_slice_outbox [simp]: "outbox (store_slice g xs st) = outbox st"
  by (simp add: store_slice_def split: option.split)

lemma refreshStructural_outbox: "refreshStructural api c nA sA nwA st = Inr (ok, st') \<Longrightarrow> outbox st' = outbox st"
  by (cases "getNodesInfo c nA"; cases "getNetworksInfo c nwA")
    (auto simp: refreshStructural_def split: option.splits)

lemma refreshTasks_outbox: "refreshTasks api c now orders tA st = Inr (ok, st') \<Longrightarrow> outbox st' = outbox st"
  by (auto simp: refreshTasks_def split: option.splits)

lemma publish_outbox:
  "publish api marshal c st = Inr st' \<Longrightarrow> outbox st' = outbox st \<or> (\<exists>f. outbox st' = outbox st @ [f])"
  by (auto simp: publish_def Let_def split: if_splits option.splits)

lemma inspect_step_outbox:
  "inspect_step api marshal c st st' \<Longrightarrow> outbox st' = outbox st \<or> (\<exists>f. outbox st' = outbox st @ [f])"
  by (erule inspect_step.cases) (metis publish_outbox refreshTasks_outbox refreshStructural_outbox)+

lemma inspect_start_outbox:
  assumes "inspect_start api marshal c st"
  shows "outbox st = [] \<or> (\<exists>f. outbox st = [f])"
  using assms
proof cases
  case (start nA sA nwA ok st1 now orders tA ok' st2)
  have "outbox st2 = []"
    using refreshStructural_outbox [OF start(1)] refreshTasks_outbox [OF start(2)] by (simp add: new_inspector_def)
  with publish_outbox [OF start(3)] show ?thesis by simp
qed

text \<open>What the steps of the hub do to the frames.\<close>

lemma bcast_frames: "bcast_step s t \<Longrightarrow> published t = published s \<and> written t = written s"
  by (erule bcast_step.cases)
    (auto simp: bcast_lock_def bcast_drop_def bcast_first_def bcast_last_def crash_def go_map_def split: sum.split)

lemma conn_frames: "conn_step upgrades valid s t \<Longrightarrow> published t = published s \<and> written t = written s"
  by (erule conn_step.cases)
    (auto simp: do_register_def do_unregister_def refuse_def set_hpc_def crash_def go_map_def split: sum.splits if_splits)

lemma pump_frames:
  "pump_step s t \<Longrightarrow> published t = published s \<and>
     (written t = written s \<or> (\<exists>k msg. written t = (written s)(k := written s k @ [msg])))"
  by (erule pump_step.cases) (auto simp: pump_take_def pump_stop_def)

lemma hub_move_inv:
  assumes "hub_inv c valid s" and "bcast_step s t \<or> conn_step upgrades valid s t \<or> pump_step s t"
  shows "hub_inv c valid t"
  using assms hub_system.step_inv [of c valid s upgrades t] hub_invD(1) [OF assms(1)]
  by (auto simp: hub_step_def)

lemma process_init_inv: "process_inv api marshal c valid (init_process c)"
  by (simp add: process_inv_def init_process_def init_sys_inv new_inspector_def) (simp add: init_sys_def)

lemma process_step_inv:
  fixes w w' :: "'a process"
  assumes "views_ok api" and "process_inv api marshal c valid w" and "process_step api marshal c upgrades valid w w'"
  shows "process_inv api marshal c valid w'"
  using assms(3)
proof cases
  case (proc_start st)
  then have "prefix (published (pr_hub w)) (outbox (new_inspector :: 'a inspector))"
    using assms(2) by (auto simp: process_inv_def)
  then have "published (pr_hub w) = []" by (simp add: new_inspector_def)
  with proc_start assms(1,2) show ?thesis by (simp add: process_inv_def inspect_start_inv)
next
  case (proc_poll st)
  then show ?thesis
    using assms(1,2) inspect_step_inv [OF assms(1) _ proc_poll(4)] inspect_step_outbox [OF proc_poll(4)]
    by (auto simp: process_inv_def)
next
  case (proc_publish frame rest h)
  let ?s = "(pr_hub w)\<lparr>hubst := h, published := published (pr_hub w) @ [frame]\<rparr>"
  have "hub_step (\<lambda>_. True) valid (pr_hub w) ?s"
    using proc_publish by (auto simp: hub_step_def publish_step_def)
  then have "hub_inv c valid ?s" using assms(2) hub_system.step_inv by (auto simp: process_inv_def)
  with proc_publish assms(2) show ?thesis by (simp add: process_inv_def)
next
  case (proc_hub s)
  have "hub_inv c valid s" using assms(2) proc_hub(3) by (auto simp: process_inv_def intro: hub_move_inv)
  moreover have "published s = published (pr_hub w)"
    using proc_hub(3) by (auto dest: bcast_frames conn_frames pump_frames)
  ultimately show ?thesis using proc_hub assms(2) by (simp add: process_inv_def)
qed

section \<open>The implementation of the feed\<close>

lemma written_ahead:
  assumes "process_inv api marshal c valid w"
  shows "subseq (written (pr_hub w) k) (outbox (pr_inspector w))"
    and "written (pr_hub w) k \<noteq> [] \<Longrightarrow> AuthEnabled c \<Longrightarrow> valid k"
proof -
  let ?s = "pr_hub w"
  have inv: "hub_inv c valid ?s" and pub: "prefix (published ?s) (outbox (pr_inspector w))"
    using assms by (simp_all add: process_inv_def)
  have shape: "prefix (fanned ?s) (published ?s)" "cfg (hubst ?s) = c"
    using hub_invD(2) [OF inv] by (simp_all add: shape_ok_def)
  note ok = hub_invD(3) [OF inv, of k, unfolded conn_ok_def shape(2)]
  have "prefix (written ?s k) (taken ?s k)" "subseq (taken ?s k @ ch_buf (sends (hubst ?s) k)) (fanned ?s)"
    using client_ok_frames [OF ok] by blast+
  then show "subseq (written ?s k) (outbox (pr_inspector w))"
    using pub shape(1) by (meson prefix_imp_subseq subseq_order.order_trans subseq_prefix)
  show "valid k" if "written ?s k \<noteq> []" "AuthEnabled c"
    using ok that by (auto simp: client_ok_def)
qed

lemma process_step_feed:
  fixes w w' :: "'a process"
  assumes api: "views_ok api" and inv: "process_inv api marshal c valid w"
    and step: "process_step api marshal c upgrades valid w w'"
  shows "feed_step (clean_frame api marshal c) (\<lambda>k. AuthEnabled c \<longrightarrow> valid k) (feed_of w) (feed_of w') \<or>
    feed_of w' = feed_of w"
proof -
  have inv': "process_inv api marshal c valid w'" by (rule process_step_inv [OF api inv step])
  have logged: ?thesis if "f_seen (feed_of w') = f_seen (feed_of w)"
    "outbox (pr_inspector w') = outbox (pr_inspector w) @ [f]" "pr_started w'" for f
  proof -
    have "clean_frame api marshal c f"
      using inv' that(2,3) by (simp add: process_inv_def inspect_inv_def)
    from feed_log [of "clean_frame api marshal c" f, OF this, of "\<lambda>k. AuthEnabled c \<longrightarrow> valid k" "feed_of w"] that(1,2)
    show ?thesis by (simp add: feed_of_def)
  qed
  from step show ?thesis
  proof cases
    case (proc_start st)
    then have "outbox (pr_inspector w) = []" using inv by (auto simp: process_inv_def new_inspector_def)
    with inspect_start_outbox [OF proc_start(3)] logged proc_start(1) show ?thesis by (auto simp: feed_of_def)
  next
    case (proc_poll st)
    with inspect_step_outbox [OF proc_poll(4)] logged show ?thesis by (auto simp: feed_of_def)
  next
    case (proc_publish frame rest h)
    then show ?thesis by (simp add: feed_of_def)
  next
    case (proc_hub s)
    show ?thesis
    proof (cases "written s = written (pr_hub w)")
      case True
      with proc_hub show ?thesis by (simp add: feed_of_def)
    next
      case False
      then obtain k msg where k: "written s = (written (pr_hub w))(k := written (pr_hub w) k @ [msg])"
        using proc_hub(3) by (auto dest: bcast_frames conn_frames pump_frames)
      have "subseq (f_seen (feed_of w) k @ [msg]) (f_log (feed_of w))" "AuthEnabled c \<longrightarrow> valid k"
        using written_ahead [OF inv', of k] k proc_hub(1) by (auto simp: feed_of_def)
      from feed_deliver [of "\<lambda>k. AuthEnabled c \<longrightarrow> valid k" k "feed_of w" msg, OF this(2,1)] k proc_hub(1)
      show ?thesis by (simp add: feed_of_def)
    qed
  qed
qed

interpretation process_system: simulation
  "\<lambda>w. w = init_process c"
  "\<lambda>w w'. views_ok api \<and> process_step api marshal c upgrades valid w w'"
  "process_inv api marshal c valid"
  feed_init "feed_step (clean_frame api marshal c) (\<lambda>k. AuthEnabled c \<longrightarrow> valid k)" feed_of
  for c api marshal upgrades valid
proof
  show "w = init_process c \<Longrightarrow> process_inv api marshal c valid w" for w
    by (simp add: process_init_inv)
  show "w = init_process c \<Longrightarrow> feed_init (feed_of w)" for w
    by (simp add: feed_init_def feed_of_def init_process_def init_sys_def new_inspector_def)
qed (use process_step_inv process_step_feed in blast)+

text \<open>The states of the running process.\<close>

definition process_reachable ::
  "'o api_view \<Rightarrow> (goval \<Rightarrow> string option) \<Rightarrow> config \<Rightarrow> (client \<Rightarrow> bool) \<Rightarrow> (client \<Rightarrow> bool) \<Rightarrow> 'o process \<Rightarrow> bool" where
  "process_reachable api marshal c upgrades valid w \<longleftrightarrow>
     (process_step api marshal c upgrades valid)\<^sup>*\<^sup>* (init_process c) w"

lemma process_reachable_inv:
  "views_ok api \<Longrightarrow> process_reachable api marshal c upgrades valid w \<Longrightarrow> process_inv api marshal c valid w"
  unfolding process_reachable_def by (rule process_system.reachable_inv [OF refl, where api = api]) simp

text \<open>
  C2: the running process implements the abstract feed: seen from outside, all it ever does is to log
  snapshots that are clean for every configured sensitive path, and to deliver to connections that
  may read (all of them without authentication, otherwise those with a valid token) a snapshot of
  the log that lies ahead of everything that connection has received.
\<close>

theorem process_refines_feed:
  assumes "views_ok api" and "process_reachable api marshal c upgrades valid w"
  shows "\<exists>a. feed_init a \<and>
    (feed_step (clean_frame api marshal c) (\<lambda>k. AuthEnabled c \<longrightarrow> valid k))\<^sup>*\<^sup>* a
      \<lparr>f_log = outbox (pr_inspector w), f_seen = written (pr_hub w)\<rparr>"
  using process_system.reachable_sim [OF refl, of api marshal c upgrades valid w] assms
  by (simp add: process_reachable_def feed_of_def)

section \<open>Progress\<close>

lemma bcast_process_steps:
  assumes "bcast_step\<^sup>*\<^sup>* (pr_hub w) s" and "hub_inv c valid (pr_hub w)"
  shows "(process_step api marshal c upgrades valid)\<^sup>*\<^sup>* w (w\<lparr>pr_hub := s\<rparr>)"
  using assms(1)
proof (induction rule: rtranclp_induct)
  case base
  then show ?case by simp
next
  case (step t u)
  have "panicked t = None" using hub_invD(1) bcast_steps_inv [OF step.hyps(1) assms(2)] .
  then have "process_step api marshal c upgrades valid (w\<lparr>pr_hub := t\<rparr>) (w\<lparr>pr_hub := t\<rparr>\<lparr>pr_hub := u\<rparr>)"
    using step.hyps(2) by (intro proc_hub) simp_all
  with step.IH show ?case by simp
qed

lemma process_drain:
  fixes w :: "'a process"
  assumes "views_ok api" and "process_inv api marshal c valid w"
    and "outbox (pr_inspector w) = published (pr_hub w) @ rest"
  shows "\<exists>s. (process_step api marshal c upgrades valid)\<^sup>*\<^sup>* w (w\<lparr>pr_hub := s\<rparr>) \<and> bpc s = BWait \<and>
    broadcast (hubst s) = [] \<and> published s = outbox (pr_inspector w)"
  using assms(2,3)
proof (induction rest arbitrary: w)
  case Nil
  from Nil.prems have inv: "hub_inv c valid (pr_hub w)" by (simp add: process_inv_def)
  from bcast_drain [OF inv] obtain s where "bcast_step\<^sup>*\<^sup>* (pr_hub w) s" "bpc s = BWait"
    "broadcast (hubst s) = []" "published s = published (pr_hub w)" by blast
  with bcast_process_steps [OF _ inv] Nil.prems(2) show ?case by (metis append_Nil2)
next
  case (Cons frame rest)
  let ?step = "process_step api marshal c upgrades valid"
  from Cons.prems have inv: "hub_inv c valid (pr_hub w)" by (simp add: process_inv_def)
  from bcast_drain [OF inv] obtain s where s: "bcast_step\<^sup>*\<^sup>* (pr_hub w) s"
    "broadcast (hubst s) = []" "published s = published (pr_hub w)" by blast
  let ?u = "s\<lparr>hubst := (hubst s)\<lparr>broadcast := [frame]\<rparr>, published := published s @ [frame]\<rparr>"
  have steps: "?step\<^sup>*\<^sup>* w (w\<lparr>pr_hub := s\<rparr>)" by (rule bcast_process_steps [OF s(1) inv])
  have "panicked s = None" using hub_invD(1) bcast_steps_inv [OF s(1) inv] .
  then have "?step (w\<lparr>pr_hub := s\<rparr>) (w\<lparr>pr_hub := s\<rparr>\<lparr>pr_hub := (pr_hub (w\<lparr>pr_hub := s\<rparr>))\<lparr>
      hubst := (hubst s)\<lparr>broadcast := [frame]\<rparr>, published := published (pr_hub (w\<lparr>pr_hub := s\<rparr>)) @ [frame]\<rparr>\<rparr>)"
    using Cons.prems(2) s(2,3) by (intro proc_publish [where rest = rest]) (simp_all add: Publish_def)
  with steps have to_u: "?step\<^sup>*\<^sup>* w (w\<lparr>pr_hub := ?u\<rparr>)" by (simp add: rtranclp.rtrancl_into_rtrancl)
  have "process_inv api marshal c valid (w\<lparr>pr_hub := ?u\<rparr>)"
    using process_system.steps_inv [of api marshal c upgrades valid w] to_u assms(1) Cons.prems(1) by simp
  from Cons.IH [OF this] Cons.prems(2) s(3) obtain t where
    "?step\<^sup>*\<^sup>* (w\<lparr>pr_hub := ?u\<rparr>) (w\<lparr>pr_hub := t\<rparr>)" "bpc t = BWait" "broadcast (hubst t) = []"
    "published t = outbox (pr_inspector w)" by auto
  with to_u show ?case by (meson rtranclp_trans)
qed


section \<open>One snapshot on its way to one client\<close>

text \<open>The connection 0 registers, the inspector publishes, the frame is fanned out and written.\<close>

definition demo_hub0 :: sys where
  "demo_hub0 = set_hpc 0 HReading ((init_sys demo_conf)\<lparr>
     hubst := (newHub demo_conf)\<lparr>clients := {0}\<rparr>, wpc := (\<lambda>_. WNotStarted)(0 := WRunning)\<rparr>)"

definition demo_hub1 :: sys where
  "demo_hub1 = demo_hub0\<lparr>hubst := (hubst demo_hub0)\<lparr>broadcast := [''frame'']\<rparr>, published := [''frame'']\<rparr>"

definition demo_hub2 :: sys where
  "demo_hub2 = demo_hub0\<lparr>
     hubst := put_chan 0 \<lparr>ch_buf = [''frame''], ch_closed = False\<rparr> ((hubst demo_hub0)\<lparr>lastFanned := Some ''frame''\<rparr>),
     bpc := BFan ''frame'' {}, published := [''frame''], fanned := [''frame'']\<rparr>"

definition demo_hub3 :: sys where
  "demo_hub3 = (pump_take 0 ''frame'' [] demo_hub2)\<lparr>written := (written demo_hub2)(0 := written demo_hub2 0 @ [''frame''])\<rparr>"

lemmas demo_hub_defs = demo_hub0_def demo_hub1_def demo_hub2_def demo_hub3_def init_sys_def newHub_def
  new_chan_def put_chan_def set_hpc_def demo_conf_def example_config_def

definition demo_process :: "unit process" where
  "demo_process = \<lparr>pr_started = True, pr_inspector = demo_sent, pr_hub = demo_hub3\<rparr>"

abbreviation demo_valid :: "client \<Rightarrow> bool" where
  "demo_valid \<equiv> (\<lambda>k. k = 0)"

lemma demo_connects: "(conn_step (\<lambda>_. True) demo_valid)\<^sup>*\<^sup>* (init_sys demo_conf) demo_hub0"
proof -
  let ?step = "conn_step (\<lambda>_. True) demo_valid" and ?at = "\<lambda>p. set_hpc 0 p (init_sys demo_conf)"
  have set: "set_hpc 0 p (?at q) = ?at p" for p q by (simp add: set_hpc_def)
  have "?step (init_sys demo_conf) (?at HUpgrade)"
    by (rule conn_admit) (simp_all add: demo_hub_defs lock_free_def atCapacity_def)
  moreover have "?step (?at HUpgrade) (set_hpc 0 HAuth (?at HUpgrade))"
    by (rule conn_upgrade) (simp_all add: set_hpc_def)
  moreover have "?step (?at HAuth) (set_hpc 0 HRegister (?at HAuth))"
    by (rule conn_authorized) (simp_all add: set_hpc_def)
  moreover have "?step (?at HRegister) demo_hub0"
    by (rule conn_register [where c = 0])
      (simp_all add: demo_hub_defs lock_free_def do_register_def register_def)
  ultimately show ?thesis unfolding set by (meson r_into_rtranclp rtranclp.rtrancl_into_rtrancl)
qed

lemma demo_fans_out: "bcast_step\<^sup>*\<^sup>* demo_hub1 demo_hub2"
proof -
  let ?a = "demo_hub1\<lparr>hubst := (hubst demo_hub1)\<lparr>broadcast := []\<rparr>, bpc := BLock ''frame''\<rparr>"
  let ?b = "bcast_lock ''frame'' ?a"
  have "bcast_step demo_hub1 ?a" by (rule bcast_recv) (simp_all add: demo_hub_defs)
  moreover have "bcast_step ?a ?b" by (rule bcast_acquire) simp
  ultimately have "bcast_step\<^sup>*\<^sup>* demo_hub1 ?b" by (rule rtranclp.rtrancl_into_rtrancl [OF r_into_rtranclp])
  moreover have "bcast_step ?b (crash ?b (bcast_first ''frame'' 0 {0} ?b))"
    by (rule bcast_select1) (simp_all add: demo_hub_defs bcast_lock_def)
  moreover have "crash ?b (bcast_first ''frame'' 0 {0} ?b) = demo_hub2"
    by (simp add: crash_def bcast_first_def bcast_lock_def try_send_def chan_send_def demo_hub_defs)
  ultimately show ?thesis by (simp only: rtranclp.rtrancl_into_rtrancl)
qed

lemma conn_process_steps:
  assumes "(conn_step upgrades valid)\<^sup>*\<^sup>* (pr_hub w) s" and "hub_inv c valid (pr_hub w)"
  shows "(process_step api marshal c upgrades valid)\<^sup>*\<^sup>* w (w\<lparr>pr_hub := s\<rparr>) \<and> hub_inv c valid s"
  using assms(1)
proof (induction rule: rtranclp_induct)
  case base
  then show ?case using assms(2) by simp
next
  case (step t u)
  then have inv: "hub_inv c valid t" by blast
  have "process_step api marshal c upgrades valid (w\<lparr>pr_hub := t\<rparr>) (w\<lparr>pr_hub := t\<rparr>\<lparr>pr_hub := u\<rparr>)"
    using step.hyps(2) hub_invD(1) [OF inv] by (intro proc_hub) simp_all
  with step.IH hub_move_inv [OF inv] step.hyps(2) show ?case by auto
qed

definition demo_handed_over :: "unit process" where
  "demo_handed_over = \<lparr>pr_started = True, pr_inspector = demo_sent, pr_hub = demo_hub1\<rparr>"

lemma demo_handed_over_reachable: "process_reachable demo_api demo_marshal demo_conf (\<lambda>_. True) demo_valid demo_handed_over"
proof -
  let ?step = "process_step demo_api demo_marshal demo_conf (\<lambda>_. True) demo_valid"
  let ?w0 = "init_process demo_conf :: unit process"
  have "hub_inv demo_conf demo_valid (pr_hub ?w0)" by (simp add: init_process_def init_sys_inv)
  from conn_process_steps [OF _ this, of "\<lambda>_. True" demo_hub0] demo_connects
  have 0: "?step\<^sup>*\<^sup>* ?w0 (?w0\<lparr>pr_hub := demo_hub0\<rparr>)" by (simp add: init_process_def)
  let ?w1 = "\<lparr>pr_started = True, pr_inspector = demo_sent, pr_hub = demo_hub0\<rparr>"
  have 1: "?step (?w0\<lparr>pr_hub := demo_hub0\<rparr>) ?w1"
    using proc_start [of "?w0\<lparr>pr_hub := demo_hub0\<rparr>", OF _ demo_inspect_start] by (simp add: init_process_def)
  have 2: "?step ?w1 demo_handed_over"
    using proc_publish [of ?w1 "''frame''" "[]"] demo_sent_simps(1)
    by (simp add: demo_handed_over_def demo_hub_defs Publish_def)
  show ?thesis
    unfolding process_reachable_def by (rule rtranclp.rtrancl_into_rtrancl [OF rtranclp.rtrancl_into_rtrancl [OF 0 1] 2])
qed

lemma demo_hub1_inv: "hub_inv demo_conf demo_valid demo_hub1"
  using process_reachable_inv [OF demo_views_ok demo_handed_over_reachable]
  by (simp add: process_inv_def demo_handed_over_def)

lemma demo_process_reachable: "process_reachable demo_api demo_marshal demo_conf (\<lambda>_. True) demo_valid demo_process"
proof -
  let ?step = "process_step demo_api demo_marshal demo_conf (\<lambda>_. True) demo_valid"
  have 1: "?step\<^sup>*\<^sup>* demo_handed_over (demo_handed_over\<lparr>pr_hub := demo_hub2\<rparr>)"
    by (rule bcast_process_steps) (simp_all add: demo_handed_over_def demo_fans_out demo_hub1_inv)
  have "pump_step demo_hub2 demo_hub3" unfolding demo_hub3_def by (rule pump_write) (simp_all add: demo_hub_defs)
  then have 2: "?step (demo_handed_over\<lparr>pr_hub := demo_hub2\<rparr>) (demo_handed_over\<lparr>pr_hub := demo_hub2\<rparr>\<lparr>pr_hub := demo_hub3\<rparr>)"
    by (intro proc_hub) (simp_all add: demo_hub_defs)
  from demo_handed_over_reachable 1 2 show ?thesis
    by (simp add: process_reachable_def demo_process_def demo_handed_over_def)
qed

lemma demo_process_frames:
  "written (pr_hub demo_process) 0 = [''frame'']" "outbox (pr_inspector demo_process) = [''frame'']"
  by (simp_all add: demo_process_def demo_sent_simps pump_take_def demo_hub_defs)

theorem process_refines_feed_witness:
  "\<exists>a. feed_init a \<and>
     (feed_step (clean_frame demo_api demo_marshal demo_conf) (\<lambda>k. AuthEnabled demo_conf \<longrightarrow> demo_valid k))\<^sup>*\<^sup>* a
       \<lparr>f_log = [''frame''], f_seen = written (pr_hub demo_process)\<rparr>"
  using process_refines_feed [OF demo_views_ok demo_process_reachable] by (simp add: demo_process_frames)


end
