(* ===== verification/KeyStore.thy ===== *)
theory KeyStore
  imports Prelude
begin

text \<open>
  \<open>internal/oauth/jwks.go\<close>: the store of the identity provider's signing keys.  Times are
  nanoseconds.  What the provider answers is an argument (\<open>None\<close> when the request or its decoding
  fails), and so are base64 decoding, certificate parsing and the test for an RSA key.  The first
  part is the code as one goroutine runs it; the second lets any number of goroutines run it at
  once, with the critical sections and the request in between as separate steps.
\<close>

section \<open>Operations\<close>

definition jwksRefreshThrottle :: int where
  "jwksRefreshThrottle = 60 * 1000000000"

text \<open>An entry of the JWKS document.\<close>

record jwk =
  Kid :: string
  X5c :: "string list"

record ('cert, 'k) certs =
  decodeString :: "string \<Rightarrow> string option"
  parseCertificate :: "string \<Rightarrow> 'cert option"
  rsaPublicKey :: "'cert \<Rightarrow> 'k option"

record 'k keyStore =
  keys :: "string \<rightharpoonup> 'k"
  lastRefresh :: int

definition newKeyStore :: "int \<Rightarrow> 'k keyStore" where
  "newKeyStore zeroTime = \<lparr>keys = Map.empty, lastRefresh = zeroTime\<rparr>"

text \<open>The body of the loop over the keys: \<open>None\<close> where the entry is skipped.\<close>

definition usable_key :: "('cert, 'k) certs \<Rightarrow> jwk \<Rightarrow> 'k option" where
  "usable_key cs j =
     (case X5c j of
        [] \<Rightarrow> None
      | x # _ \<Rightarrow>
          (case decodeString cs x of
             None \<Rightarrow> None
           | Some certData \<Rightarrow>
               (case parseCertificate cs certData of
                  None \<Rightarrow> None
                | Some cert \<Rightarrow> rsaPublicKey cs cert)))"

fun load_keys :: "('cert, 'k) certs \<Rightarrow> jwk list \<Rightarrow> (string \<rightharpoonup> 'k) \<Rightarrow> (string \<rightharpoonup> 'k)" where
  "load_keys cs [] newKeys = newKeys"
| "load_keys cs (j # js) newKeys =
     (case usable_key cs j of
        None \<Rightarrow> load_keys cs js newKeys
      | Some k \<Rightarrow> load_keys cs js (newKeys(Kid j \<mapsto> k)))"

text \<open>The two critical sections of \<open>refresh\<close>, and the whole of it; the flag reports success.\<close>

definition record_attempt :: "int \<Rightarrow> 'k keyStore \<Rightarrow> 'k keyStore" where
  "record_attempt now ks = ks\<lparr>lastRefresh := now\<rparr>"

definition install_keys :: "('cert, 'k) certs \<Rightarrow> jwk list option \<Rightarrow> 'k keyStore \<Rightarrow> bool \<times> 'k keyStore" where
  "install_keys cs answer ks =
     (case answer of
        None \<Rightarrow> (False, ks)
      | Some js \<Rightarrow>
          (let newKeys = load_keys cs js Map.empty
           in if newKeys = Map.empty then (False, ks) else (True, ks\<lparr>keys := newKeys\<rparr>)))"

definition refresh :: "('cert, 'k) certs \<Rightarrow> int \<Rightarrow> jwk list option \<Rightarrow> 'k keyStore \<Rightarrow> bool \<times> 'k keyStore" where
  "refresh cs now answer ks = install_keys cs answer (record_attempt now ks)"

definition is_fresh :: "int \<Rightarrow> 'k keyStore \<Rightarrow> bool" where
  "is_fresh now ks \<longleftrightarrow> now - lastRefresh ks < jwksRefreshThrottle"

definition refreshIfStale ::
  "('cert, 'k) certs \<Rightarrow> int \<Rightarrow> jwk list option \<Rightarrow> 'k keyStore \<Rightarrow> bool \<times> 'k keyStore" where
  "refreshIfStale cs now answer ks =
     (if is_fresh now ks then (False, ks) else (True, snd (refresh cs now answer ks)))"

definition lookup_key ::
  "('cert, 'k) certs \<Rightarrow> int \<Rightarrow> jwk list option \<Rightarrow> string \<Rightarrow> 'k keyStore \<Rightarrow> 'k option \<times> 'k keyStore" where
  "lookup_key cs now answer kid ks =
     (case keys ks kid of
        Some k \<Rightarrow> (Some k, ks)
      | None \<Rightarrow>
          (case refreshIfStale cs now answer ks of
             (attempted, ks') \<Rightarrow> if \<not> attempted then (None, ks') else (keys ks' kid, ks')))"

section \<open>Laws\<close>

text \<open>What a JWKS document stands for: per key id the last usable entry.\<close>

definition jwks_keys :: "('cert, 'k) certs \<Rightarrow> jwk list \<Rightarrow> (string \<rightharpoonup> 'k)" where
  "jwks_keys cs js = map_of (rev (List.map_filter (\<lambda>j. map_option (Pair (Kid j)) (usable_key cs j)) js))"

lemma load_keys_eq: "load_keys cs js m = m ++ jwks_keys cs js"
proof (induction js arbitrary: m)
  case Nil
  then show ?case by (simp add: jwks_keys_def map_filter_simps)
next
  case (Cons j js)
  show ?case
    by (cases "usable_key cs j")
      (auto simp: Cons.IH jwks_keys_def map_filter_simps map_add_def fun_eq_iff split: option.split)
qed

lemma jwks_keys_empty: "jwks_keys cs js = Map.empty \<longleftrightarrow> (\<forall>j \<in> set js. usable_key cs j = None)"
  by (auto simp: jwks_keys_def map_filter_def filter_empty_conv)

lemma install_keys_eq:
  "install_keys cs answer ks =
     (case answer of
        None \<Rightarrow> (False, ks)
      | Some js \<Rightarrow> if jwks_keys cs js = Map.empty then (False, ks) else (True, ks\<lparr>keys := jwks_keys cs js\<rparr>))"
  by (simp add: install_keys_def load_keys_eq Let_def split: option.split)

text \<open>
  A refresh that succeeds installs exactly the usable RSA keys of the document it fetched, the
  last entry of a key id winning; one that fails (no answer, or no usable key) leaves the keys that
  were there.  Either way the attempt is recorded, so that failures count for the throttle too.
\<close>

theorem refresh_correct:
  "lastRefresh (snd (refresh cs now answer ks)) = now \<and>
   (fst (refresh cs now answer ks) \<longleftrightarrow>
      (\<exists>js. answer = Some js \<and> (\<exists>j \<in> set js. usable_key cs j \<noteq> None))) \<and>
   keys (snd (refresh cs now answer ks)) =
     (if fst (refresh cs now answer ks) then jwks_keys cs (the answer) else keys ks)"
proof (cases answer)
  case None
  then show ?thesis by (simp add: refresh_def install_keys_eq record_attempt_def)
next
  case (Some js)
  then show ?thesis
    using jwks_keys_empty [of cs js] by (simp add: refresh_def install_keys_eq record_attempt_def)
qed

text \<open>
  Looking up a key: a known key id is answered from the store and changes nothing; an unknown
  one within a minute of the last attempt is refused without contacting the provider; otherwise
  there is one refresh, and the answer is what the refreshed store holds.  Within the minute after
  that refresh every further lookup, of whatever key id, leaves the store alone.
\<close>

theorem lookup_key_throttled:
  "lookup_key cs now answer kid ks =
     (if keys ks kid \<noteq> None then (keys ks kid, ks)
      else if now - lastRefresh ks < jwksRefreshThrottle then (None, ks)
      else (keys (snd (refresh cs now answer ks)) kid, snd (refresh cs now answer ks))) \<and>
   (now' - now < jwksRefreshThrottle \<longrightarrow>
      lookup_key cs now' answer' kid' (snd (refresh cs now answer ks)) =
        (keys (snd (refresh cs now answer ks)) kid', snd (refresh cs now answer ks)))"
proof -
  have "lastRefresh (snd (refresh cs now answer ks)) = now"
    by (simp add: refresh_def install_keys_eq record_attempt_def split: option.split)
  then show ?thesis
    by (auto simp: lookup_key_def refreshIfStale_def is_fresh_def split: option.split)
qed

text \<open>One document with the single key \<open>7\<close> under the id \<open>a\<close>, for concrete runs.\<close>

definition demo_certs :: "(nat, nat) certs" where
  "demo_certs = \<lparr>decodeString = Some, parseCertificate = (\<lambda>d. Some (length d)), rsaPublicKey = Some\<rparr>"

definition demo_jwks :: "jwk list" where
  "demo_jwks = [\<lparr>Kid = ''a'', X5c = [''1234567'']\<rparr>]"

theorem lookup_key_throttled_witness:
  "lookup_key demo_certs 5 None ''b'' (snd (refresh demo_certs 0 (Some demo_jwks) (newKeyStore 0))) =
     (None, snd (refresh demo_certs 0 (Some demo_jwks) (newKeyStore 0)))"
proof -
  let ?ks = "snd (refresh demo_certs 0 (Some demo_jwks) (newKeyStore 0))"
  have "lookup_key demo_certs 5 None ''b'' ?ks = (keys ?ks ''b'', ?ks)"
    using lookup_key_throttled [of demo_certs 0 "Some demo_jwks" "[]" "newKeyStore 0" 5 None "''b''"]
    by (simp add: jwksRefreshThrottle_def)
  moreover have "keys ?ks ''b'' = None"
    by (simp add: refresh_def install_keys_def record_attempt_def newKeyStore_def demo_jwks_def demo_certs_def
        usable_key_def Let_def)
  ultimately show ?thesis by simp
qed

section \<open>Concurrent use\<close>

text \<open>
  Where a goroutine is in \<open>key\<close>: before its first lookup, before the staleness test, before
  recording its attempt, with its request under way, before the second lookup, or done.  The
  periodic \<open>refreshLoop\<close> is goroutine 0, which is always at \<open>KRecord\<close> or \<open>KFetch\<close> and has no key id;
  when its ticker fires is left open.
\<close>

datatype 'k key_pc =
    KLookup string
  | KTest string
  | KRecord "string option"
  | KFetch "string option"
  | KRetry string
  | KDone "'k option"

record 'k key_sys =
  store :: "'k keyStore"
  clock :: int
  key_pc :: "nat \<Rightarrow> 'k key_pc"
  requests :: "int list"

definition set_pc :: "nat \<Rightarrow> 'k key_pc \<Rightarrow> 'k key_sys \<Rightarrow> 'k key_sys" where
  "set_pc i p s = s\<lparr>key_pc := (key_pc s)(i := p)\<rparr>"

inductive key_step :: "('cert, 'k) certs \<Rightarrow> 'k key_sys \<Rightarrow> 'k key_sys \<Rightarrow> bool" for cs where
  key_time: "clock s \<le> now \<Longrightarrow> key_step cs s (s\<lparr>clock := now\<rparr>)"
| key_hit: "key_pc s i = KLookup kid \<Longrightarrow> keys (store s) kid = Some k \<Longrightarrow>
     key_step cs s (set_pc i (KDone (Some k)) s)"
| key_miss: "key_pc s i = KLookup kid \<Longrightarrow> keys (store s) kid = None \<Longrightarrow> key_step cs s (set_pc i (KTest kid) s)"
| key_fresh: "key_pc s i = KTest kid \<Longrightarrow> is_fresh (clock s) (store s) \<Longrightarrow>
     key_step cs s (set_pc i (KDone None) s)"
| key_stale: "key_pc s i = KTest kid \<Longrightarrow> \<not> is_fresh (clock s) (store s) \<Longrightarrow>
     key_step cs s (set_pc i (KRecord (Some kid)) s)"
| key_record: "key_pc s i = KRecord kid \<Longrightarrow>
     key_step cs s (set_pc i (KFetch kid)
       (s\<lparr>store := record_attempt (clock s) (store s), requests := requests s @ [clock s]\<rparr>))"
| key_answer: "key_pc s i = KFetch kid \<Longrightarrow> install_keys cs answer (store s) = (ok, ks) \<Longrightarrow>
     key_step cs s (set_pc i (case kid of None \<Rightarrow> KRecord None | Some k \<Rightarrow> KRetry k) (s\<lparr>store := ks\<rparr>))"
| key_retry: "key_pc s i = KRetry kid \<Longrightarrow> key_step cs s (set_pc i (KDone (keys (store s) kid)) s)"
| key_next: "key_pc s i = KDone r \<Longrightarrow> key_step cs s (set_pc i (KLookup kid) s)"

text \<open>The keys are always those of one document; there is no mixture and no half-built set.\<close>

definition key_inv :: "('cert, 'k) certs \<Rightarrow> 'k key_sys \<Rightarrow> bool" where
  "key_inv cs s \<longleftrightarrow> keys (store s) \<noteq> Map.empty \<and> (\<exists>js. keys (store s) = jwks_keys cs js)"

lemma install_keys_inv:
  assumes "install_keys cs answer ks = (ok, ks')" and "keys ks \<noteq> Map.empty" and "\<exists>js. keys ks = jwks_keys cs js"
  shows "keys ks' \<noteq> Map.empty \<and> (\<exists>js. keys ks' = jwks_keys cs js)"
  using assms by (auto simp: install_keys_eq split: option.splits if_splits)

lemma install_keys_ok:
  assumes "install_keys cs answer ks = (True, ks')"
  shows "keys ks' \<noteq> Map.empty \<and> (\<exists>js. keys ks' = jwks_keys cs js)"
proof (cases answer)
  case None
  with assms show ?thesis by (simp add: install_keys_eq)
next
  case (Some js)
  with assms have "jwks_keys cs js \<noteq> Map.empty" "ks' = ks\<lparr>keys := jwks_keys cs js\<rparr>"
    by (simp_all add: install_keys_eq split: if_splits)
  then show ?thesis by auto
qed

lemma key_step_inv: "key_inv cs s \<Longrightarrow> key_step cs s t \<Longrightarrow> key_inv cs t"
  by (elim key_step.cases) (auto simp: key_inv_def set_pc_def record_attempt_def dest: install_keys_inv)

text \<open>The server starts its goroutines only after a first refresh has succeeded.\<close>

definition key_init :: "('cert, 'k) certs \<Rightarrow> 'k key_sys \<Rightarrow> bool" where
  "key_init cs s \<longleftrightarrow>
     (\<exists>answer ks. refresh cs (clock s) answer ks = (True, store s)) \<and>
     key_pc s 0 = KRecord None \<and> (\<forall>i > 0. \<exists>r. key_pc s i = KDone r) \<and> requests s = []"

interpretation key_system: invariant_system "key_init cs" "key_step cs" "key_inv cs"
  for cs
proof
  show "key_inv cs s" if "key_init cs s" for s
    using that
    by (auto simp: key_init_def key_inv_def refresh_def dest: install_keys_ok)
qed (rule key_step_inv)


text \<open>Two goroutines, at \<open>p1\<close> and \<open>p2\<close>, beside the periodic one, which does not move.\<close>

definition race_state ::
  "nat keyStore \<Rightarrow> int \<Rightarrow> nat key_pc \<Rightarrow> nat key_pc \<Rightarrow> int list \<Rightarrow> nat key_sys" where
  "race_state ks now p1 p2 reqs =
     \<lparr>store = ks, clock = now,
      key_pc = (\<lambda>i. if i = 0 then KRecord None else KDone None)(2 := p1, 3 := p2), requests = reqs\<rparr>"

lemma race_update:
  "set_pc 2 p (race_state ks now p1 p2 reqs) = race_state ks now p p2 reqs"
  "set_pc 3 p (race_state ks now p1 p2 reqs) = race_state ks now p1 p reqs"
  by (simp_all add: race_state_def set_pc_def fun_upd_twist)

lemma race_simps [simp]:
  "key_pc (race_state ks now p1 p2 reqs) 2 = p1" "key_pc (race_state ks now p1 p2 reqs) 3 = p2"
  "key_pc (race_state ks now p1 p2 reqs) 0 = KRecord None"
  "store (race_state ks now p1 p2 reqs) = ks" "clock (race_state ks now p1 p2 reqs) = now"
  "requests (race_state ks now p1 p2 reqs) = reqs"
  by (simp_all add: race_state_def)

lemma race_lookup:
  assumes "keys ks ''x'' = None"
  shows "(key_step cs)\<^sup>*\<^sup>* (race_state ks now (KDone None) (KDone None) reqs)
    (race_state ks now (KTest ''x'') (KTest ''x'') reqs)"
proof -
  have "key_step cs (race_state ks now (KDone None) (KDone None) reqs)
      (race_state ks now (KLookup ''x'') (KDone None) reqs)"
    using key_next [of "race_state ks now (KDone None) (KDone None) reqs" 2 None cs "''x''"] by (simp add: race_update)
  moreover have "key_step cs (race_state ks now (KLookup ''x'') (KDone None) reqs)
      (race_state ks now (KLookup ''x'') (KLookup ''x'') reqs)"
    using key_next [of "race_state ks now (KLookup ''x'') (KDone None) reqs" 3 None cs "''x''"] by (simp add: race_update)
  moreover have "key_step cs (race_state ks now (KLookup ''x'') (KLookup ''x'') reqs)
      (race_state ks now (KTest ''x'') (KLookup ''x'') reqs)"
    using key_miss [of "race_state ks now (KLookup ''x'') (KLookup ''x'') reqs" 2 "''x''" cs] assms by (simp add: race_update)
  moreover have "key_step cs (race_state ks now (KTest ''x'') (KLookup ''x'') reqs)
      (race_state ks now (KTest ''x'') (KTest ''x'') reqs)"
    using key_miss [of "race_state ks now (KTest ''x'') (KLookup ''x'') reqs" 3 "''x''" cs] assms by (simp add: race_update)
  ultimately show ?thesis by (meson r_into_rtranclp rtranclp_trans)
qed

lemma race_refresh:
  assumes "\<not> is_fresh now ks"
  shows "(key_step cs)\<^sup>*\<^sup>* (race_state ks now (KTest ''x'') (KTest ''x'') [])
    (race_state (record_attempt now ks) now (KFetch (Some ''x'')) (KFetch (Some ''x'')) [now, now])"
proof -
  let ?r = "KRecord (Some ''x'')" and ?f = "KFetch (Some ''x'')" and ?k = "record_attempt now ks"
  have "key_step cs (race_state ks now (KTest ''x'') (KTest ''x'') []) (race_state ks now ?r (KTest ''x'') [])"
    using key_stale [of "race_state ks now (KTest ''x'') (KTest ''x'') []" 2 "''x''" cs] assms by (simp add: race_update)
  moreover have "key_step cs (race_state ks now ?r (KTest ''x'') []) (race_state ks now ?r ?r [])"
    using key_stale [of "race_state ks now ?r (KTest ''x'') []" 3 "''x''" cs] assms by (simp add: race_update)
  moreover have "key_step cs (race_state ks now ?r ?r []) (race_state ?k now ?f ?r [now])"
    using key_record [of "race_state ks now ?r ?r []" 2 "Some ''x''" cs]
    by (simp add: race_update [unfolded race_state_def] race_state_def set_pc_def fun_upd_twist)
  moreover have "key_step cs (race_state ?k now ?f ?r [now]) (race_state ?k now ?f ?f [now, now])"
    using key_record [of "race_state ?k now ?f ?r [now]" 3 "Some ''x''" cs]
    by (simp add: race_state_def set_pc_def record_attempt_def)
  ultimately show ?thesis by (meson r_into_rtranclp rtranclp_trans)
qed

text \<open>
  The throttle is not atomic: the staleness test and the recording of the attempt are two
  critical sections, so that two goroutines that look up an unknown key id at the same time both
  contact the provider at that same moment, although a minute is to pass between two requests.
\<close>

theorem throttle_race:
  "\<exists>s t now. key_init demo_certs s \<and> (key_step demo_certs)\<^sup>*\<^sup>* s t \<and> requests t = [now, now] \<and>
     key_pc t 0 = KRecord None"
proof -
  define ks where "ks = snd (refresh demo_certs 0 (Some demo_jwks) (newKeyStore 0))"
  let ?s = "race_state ks 0 (KDone None) (KDone None) []"
  have ks: "refresh demo_certs 0 (Some demo_jwks) (newKeyStore 0) = (True, ks)" "keys ks ''x'' = None"
    "lastRefresh ks = 0"
    by (simp_all add: ks_def refresh_def install_keys_def record_attempt_def newKeyStore_def demo_jwks_def
        demo_certs_def usable_key_def Let_def)
  have init: "key_init demo_certs ?s"
    using ks(1) by (auto simp: key_init_def race_state_def)
  let ?now = jwksRefreshThrottle
  have late: "\<not> is_fresh ?now ks" by (simp add: is_fresh_def ks(3))
  have "key_step demo_certs ?s (race_state ks ?now (KDone None) (KDone None) [])"
    using key_time [of ?s ?now] by (simp add: race_state_def jwksRefreshThrottle_def)
  with race_lookup [OF ks(2), of demo_certs ?now "[]"] race_refresh [OF late, of demo_certs]
  have "(key_step demo_certs)\<^sup>*\<^sup>* ?s
      (race_state (record_attempt ?now ks) ?now (KFetch (Some ''x'')) (KFetch (Some ''x'')) [?now, ?now])"
    by (meson converse_rtranclp_into_rtranclp rtranclp_trans)
  then show ?thesis using init by (metis race_simps(3,6))
qed


end
