(* ===== verification/IdToken.thy ===== *)
theory IdToken
  imports KeyStore Config
begin

text \<open>
  \<open>internal/oauth/idtoken.go\<close>: validation of ID tokens.  The JWT library is the argument \<open>lib\<close>: it
  reads the header of a token, verifies the token with a key (signature and time claims), and reads
  the issuer and audience claims.  \<open>jwt.Parse\<close> is its documented composition: it reads the header,
  asks the callback for a key and verifies with that key.  The callback may refresh the key store, so
  the store is threaded through; \<open>now\<close> and \<open>answer\<close> are the time and the provider's answer should
  that happen.
\<close>

datatype claim = CString string | COther string

type_synonym claims = "string \<rightharpoonup> claim"

text \<open>What the callback looks at: is the method RSA, and the \<open>kid\<close> if it is a string.\<close>

record jwt_header =
  hdr_rsa :: bool
  hdr_kid :: "string option"

record 'k jwt_lib =
  jwt_header_of :: "string \<Rightarrow> jwt_header option"
  jwt_verify :: "string \<Rightarrow> 'k \<Rightarrow> (claims \<times> bool) option"
  GetIssuer :: "claims \<Rightarrow> string option"
  GetAudience :: "claims \<Rightarrow> string list option"

datatype token_error =
    NoToken
  | MalformedToken
  | UnexpectedMethod
  | MissingKid
  | KeysNotInitialized
  | UnknownKid string
  | VerificationFailed
  | NotValid
  | IssuerUnreadable
  | UnexpectedIssuer string
  | AudienceUnreadable
  | WrongAudience "string list"

text \<open>The callback that \<open>jwt.Parse\<close> calls.\<close>

definition keyfunc ::
  "('cert, 'k) certs \<Rightarrow> int \<Rightarrow> jwk list option \<Rightarrow> jwt_header \<Rightarrow> 'k keyStore option
     \<Rightarrow> (token_error + 'k) \<times> 'k keyStore option" where
  "keyfunc cs now answer hdr ks =
     (if \<not> hdr_rsa hdr then (Inl UnexpectedMethod, ks)
      else (case hdr_kid hdr of
              None \<Rightarrow> (Inl MissingKid, ks)
            | Some kid \<Rightarrow>
                (case ks of
                   None \<Rightarrow> (Inl KeysNotInitialized, ks)
                 | Some st \<Rightarrow>
                     (case lookup_key cs now answer kid st of
                        (None, st') \<Rightarrow> (Inl (UnknownKid kid), Some st')
                      | (Some k, st') \<Rightarrow> (Inr k, Some st')))))"

definition jwt_parse ::
  "'k jwt_lib \<Rightarrow> ('cert, 'k) certs \<Rightarrow> int \<Rightarrow> jwk list option \<Rightarrow> string \<Rightarrow> 'k keyStore option
     \<Rightarrow> (token_error + claims \<times> bool) \<times> 'k keyStore option" where
  "jwt_parse lib cs now answer raw ks =
     (case jwt_header_of lib raw of
        None \<Rightarrow> (Inl MalformedToken, ks)
      | Some hdr \<Rightarrow>
          (case keyfunc cs now answer hdr ks of
             (Inl e, ks') \<Rightarrow> (Inl e, ks')
           | (Inr k, ks') \<Rightarrow>
               (case jwt_verify lib raw k of
                  None \<Rightarrow> (Inl VerificationFailed, ks')
                | Some cv \<Rightarrow> (Inr cv, ks'))))"

text \<open>The loop over the audiences.\<close>

fun has_audience :: "string list \<Rightarrow> string \<Rightarrow> bool" where
  "has_audience [] clientID = False"
| "has_audience (aud # auds) clientID = (if aud = clientID then True else has_audience auds clientID)"

definition check_claims :: "'k jwt_lib \<Rightarrow> oauth_config \<Rightarrow> claims \<Rightarrow> token_error + claims" where
  "check_claims lib oc cl =
     (let audience =
        (case GetAudience lib cl of
           None \<Rightarrow> Inl AudienceUnreadable
         | Some auds \<Rightarrow> if \<not> has_audience auds (ClientID oc) then Inl (WrongAudience auds) else Inr cl)
      in if Issuer oc \<noteq> [] then
           (case GetIssuer lib cl of
              None \<Rightarrow> Inl IssuerUnreadable
            | Some iss \<Rightarrow> if iss \<noteq> Issuer oc then Inl (UnexpectedIssuer iss) else audience)
         else audience)"

definition validateRawToken ::
  "'k jwt_lib \<Rightarrow> ('cert, 'k) certs \<Rightarrow> oauth_config \<Rightarrow> int \<Rightarrow> jwk list option \<Rightarrow> string \<Rightarrow> 'k keyStore option
     \<Rightarrow> (token_error + claims) \<times> 'k keyStore option" where
  "validateRawToken lib cs oc now answer raw ks =
     (case jwt_parse lib cs now answer raw ks of
        (Inl e, ks') \<Rightarrow> (Inl e, ks')
      | (Inr (cl, isValid), ks') \<Rightarrow>
          if \<not> isValid then (Inl NotValid, ks') else (check_claims lib oc cl, ks'))"

text \<open>A request, as far as the handlers look at it; an absent header or parameter is empty.\<close>

record request =
  RemoteAddr :: string
  Header :: "string \<Rightarrow> string"
  Cookie :: "string \<Rightarrow> string option"
  Query :: "string \<Rightarrow> string"

definition raw_token :: "request \<Rightarrow> string option" where
  "raw_token r =
     (case Cookie r ''id_token'' of
        None \<Rightarrow>
          (let authHeader = Header r ''Authorization''
           in if HasPrefix authHeader ''Bearer '' then Some (TrimPrefix authHeader ''Bearer '') else None)
      | Some v \<Rightarrow> Some v)"

definition ValidateToken ::
  "'k jwt_lib \<Rightarrow> ('cert, 'k) certs \<Rightarrow> oauth_config \<Rightarrow> int \<Rightarrow> jwk list option \<Rightarrow> request \<Rightarrow> 'k keyStore option
     \<Rightarrow> (token_error + claims) \<times> 'k keyStore option" where
  "ValidateToken lib cs oc now answer r ks =
     (case raw_token r of
        None \<Rightarrow> (Inl NoToken, ks)
      | Some raw \<Rightarrow> validateRawToken lib cs oc now answer raw ks)"

section \<open>Laws\<close>

lemma has_audience_iff: "has_audience auds c \<longleftrightarrow> c \<in> set auds"
  by (induction auds) auto

lemma check_claims_iff:
  "check_claims lib oc cl = Inr cl' \<longleftrightarrow>
     cl' = cl \<and> (Issuer oc = [] \<or> GetIssuer lib cl = Some (Issuer oc)) \<and>
     (\<exists>auds. GetAudience lib cl = Some auds \<and> ClientID oc \<in> set auds)"
  by (auto simp: check_claims_def Let_def has_audience_iff split: option.split)

lemma keyfunc_iff:
  "fst (keyfunc cs now answer hdr ks) = Inr k \<longleftrightarrow>
     hdr_rsa hdr \<and> (\<exists>kid st. hdr_kid hdr = Some kid \<and> ks = Some st \<and>
       fst (lookup_key cs now answer kid st) = Some k)"
  by (auto simp: keyfunc_def split: option.split prod.split)

lemma jwt_parse_iff:
  "fst (jwt_parse lib cs now answer raw ks) = Inr cv \<longleftrightarrow>
     (\<exists>hdr k. jwt_header_of lib raw = Some hdr \<and> fst (keyfunc cs now answer hdr ks) = Inr k \<and>
        jwt_verify lib raw k = Some cv)"
  by (auto simp: jwt_parse_def split: option.split prod.split sum.split)

lemma validateRawToken_iff:
  "fst (validateRawToken lib cs oc now answer raw ks) = Inr cl \<longleftrightarrow>
     fst (jwt_parse lib cs now answer raw ks) = Inr (cl, True) \<and> check_claims lib oc cl = Inr cl"
proof -
  obtain r ks' where r: "jwt_parse lib cs now answer raw ks = (r, ks')" by fastforce
  show ?thesis
  proof (cases r)
    case (Inl e)
    with r show ?thesis by (simp add: validateRawToken_def)
  next
    case (Inr cv)
    with r show ?thesis by (cases cv) (auto simp: validateRawToken_def check_claims_iff)
  qed
qed

text \<open>
  C9: an ID token is accepted exactly when its header names an RSA method and a key id, the key
  store knows that key (after at most one refresh), the library verifies the token with that very
  key and reports it valid, its issuer is the configured one (when one is configured), and the
  client's own id is among its audiences.
\<close>

theorem validateRawToken_accepts:
  "fst (validateRawToken lib cs oc now answer raw ks) = Inr cl \<longleftrightarrow>
     (\<exists>hdr kid st k.
        jwt_header_of lib raw = Some hdr \<and> hdr_rsa hdr \<and> hdr_kid hdr = Some kid \<and> ks = Some st \<and>
        fst (lookup_key cs now answer kid st) = Some k \<and> jwt_verify lib raw k = Some (cl, True) \<and>
        (Issuer oc = [] \<or> GetIssuer lib cl = Some (Issuer oc)) \<and>
        (\<exists>auds. GetAudience lib cl = Some auds \<and> ClientID oc \<in> set auds))"
  unfolding validateRawToken_iff jwt_parse_iff keyfunc_iff check_claims_iff by blast

text \<open>
  The token of a request is its \<open>id_token\<close> cookie if it has one, whatever its headers say, and
  otherwise the bearer token of the \<open>Authorization\<close> header; a request with neither is refused, and
  the key store is not touched.
\<close>

theorem ValidateToken_source:
  "ValidateToken lib cs oc now answer r ks =
     (case Cookie r ''id_token'' of
        Some v \<Rightarrow> validateRawToken lib cs oc now answer v ks
      | None \<Rightarrow>
          if (\<exists>t. Header r ''Authorization'' = ''Bearer '' @ t)
          then validateRawToken lib cs oc now answer (drop 7 (Header r ''Authorization'')) ks
          else (Inl NoToken, ks))"
proof -
  have "TrimPrefix h ''Bearer '' = drop 7 h" if "HasPrefix h ''Bearer ''" for h
    using that by (simp add: TrimPrefix_def numeral_eq_Suc)
  then show ?thesis
    unfolding ValidateToken_def raw_token_def Let_def HasPrefix_iff [symmetric]
    by (simp split: option.split)
qed

end
