(* ===== verification/OAuth.thy ===== *)
theory OAuth
  imports IdToken
begin

text \<open>
  \<open>internal/oauth/oauth.go\<close>: client addresses behind proxies, the per-address rate limiters, the
  login, callback and logout handlers with their cookies, discovery of the provider's endpoints, and
  random strings.  Arguments stand for the oauth2 library (\<open>authCodeURL\<close>, \<open>exchange\<close>), the rate
  limiter (\<open>newLimiter\<close>, \<open>allow\<close>), the random source, and the provider's answers.
\<close>

section \<open>Client addresses\<close>

definition clientIP :: "request \<Rightarrow> ipnet list \<Rightarrow> string" where
  "clientIP r trustedProxies =
     (let host = (case SplitHostPort (RemoteAddr r) of None \<Rightarrow> RemoteAddr r | Some h \<Rightarrow> h) in
      if trustedProxies = [] then host
      else
        (case ParseIP host of
           None \<Rightarrow> host
         | Some remoteIP \<Rightarrow>
             if (\<exists>cidr \<in> set trustedProxies. Contains cidr remoteIP) then
               (if Header r ''X-Real-IP'' \<noteq> [] then TrimSpace (Header r ''X-Real-IP'')
                else if Header r ''X-Forwarded-For'' \<noteq> []
                then TrimSpace (Split CHR '','' (Header r ''X-Forwarded-For'') ! 0)
                else host)
             else host))"

section \<open>Rate limiters\<close>

record 'l ipLimiter =
  limiter :: 'l
  lastSeen :: int

type_synonym 'l limiters = "string \<rightharpoonup> 'l ipLimiter"

definition authLimiter :: "'l \<Rightarrow> int \<Rightarrow> string \<Rightarrow> 'l limiters \<Rightarrow> 'l \<times> 'l limiters" where
  "authLimiter newLimiter now ip ls =
     (let l = (case ls ip of None \<Rightarrow> newLimiter | Some e \<Rightarrow> limiter e)
      in (l, ls(ip \<mapsto> \<lparr>limiter = l, lastSeen = now\<rparr>)))"

text \<open>One round of \<open>cleanupLimiters\<close>; \<open>order\<close> is the order of the iteration over the map.\<close>

definition limiterTTL :: int where
  "limiterTTL = 10 * 60 * 1000000000"

fun cleanupLimiters :: "int \<Rightarrow> string list \<Rightarrow> 'l limiters \<Rightarrow> 'l limiters" where
  "cleanupLimiters now [] ls = ls"
| "cleanupLimiters now (ip # ips) ls =
     cleanupLimiters now ips
       (case ls ip of
          None \<Rightarrow> ls
        | Some e \<Rightarrow> if limiterTTL < now - lastSeen e then ls(ip := None) else ls)"

text \<open>
  The wrapper of the login and callback routes: \<open>Allow\<close> is called on the limiter, which the map
  shares; \<open>None\<close> is the answer 429.
\<close>

definition rate_limited ::
  "'l \<Rightarrow> (int \<Rightarrow> 'l \<Rightarrow> bool \<times> 'l) \<Rightarrow> config \<Rightarrow> int \<Rightarrow> request \<Rightarrow> (request \<Rightarrow> 'a) \<Rightarrow> 'l limiters
     \<Rightarrow> 'a option \<times> 'l limiters" where
  "rate_limited newLimiter allow c now r handler ls =
     (let ip = clientIP r (TrustedProxies c);
          (l, ls') = authLimiter newLimiter now ip ls;
          (ok, l') = allow now l;
          ls'' = ls'(ip \<mapsto> \<lparr>limiter = l', lastSeen = now\<rparr>)
      in if \<not> ok then (None, ls'') else (Some (handler r), ls''))"

section \<open>Cookies and responses\<close>

datatype same_site = LaxMode | StrictMode

record http_cookie =
  ck_Name :: string
  ck_Value :: string
  ck_Path :: string
  ck_HttpOnly :: bool
  ck_Secure :: bool
  ck_SameSite :: same_site
  ck_Expires :: "int option"
  ck_MaxAge :: int

record response =
  status :: nat
  set_cookies :: "http_cookie list"
  location :: "string option"

definition setFlowCookie :: "config \<Rightarrow> string \<Rightarrow> string \<Rightarrow> http_cookie" where
  "setFlowCookie c name value =
     \<lparr>ck_Name = name, ck_Value = value, ck_Path = ContextRoot c, ck_HttpOnly = True, ck_Secure = True,
      ck_SameSite = LaxMode, ck_Expires = None, ck_MaxAge = 0\<rparr>"

definition clearFlowCookies :: "config \<Rightarrow> http_cookie list" where
  "clearFlowCookies c =
     map (\<lambda>name. \<lparr>ck_Name = name, ck_Value = [], ck_Path = ContextRoot c, ck_HttpOnly = True, ck_Secure = True,
       ck_SameSite = LaxMode, ck_Expires = Some 0, ck_MaxAge = -1\<rparr>) [''state'', ''nonce'']"

definition session_cookie :: "config \<Rightarrow> string \<Rightarrow> http_cookie" where
  "session_cookie c rawIDToken =
     \<lparr>ck_Name = ''id_token'', ck_Value = rawIDToken, ck_Path = ContextRoot c, ck_HttpOnly = True,
      ck_Secure = True, ck_SameSite = StrictMode, ck_Expires = None,
      ck_MaxAge = SessionMaxAge (OAuthConfig c)\<rparr>"

definition redirect :: "http_cookie list \<Rightarrow> string \<Rightarrow> response" where
  "redirect cs url = \<lparr>status = 307, set_cookies = cs, location = Some url\<rparr>"

definition http_error :: "http_cookie list \<Rightarrow> nat \<Rightarrow> response" where
  "http_error cs code = \<lparr>status = code, set_cookies = cs, location = None\<rparr>"

section \<open>Random strings\<close>

text \<open>\<open>base64.RawURLEncoding\<close>.\<close>

definition b64_alphabet :: string where
  "b64_alphabet = ''ABCDEFGHIJKLMNOPQRSTUVWXYZabcdefghijklmnopqrstuvwxyz0123456789-_''"

definition b64_char :: "nat \<Rightarrow> char" where
  "b64_char n = b64_alphabet ! n"

fun b64_sextets :: "nat list \<Rightarrow> nat list" where
  "b64_sextets (a # b # c # bs) =
     (a div 4) # ((a mod 4) * 16 + b div 16) # ((b mod 16) * 4 + c div 64) # (c mod 64) # b64_sextets bs"
| "b64_sextets [a, b] = [a div 4, (a mod 4) * 16 + b div 16, (b mod 16) * 4]"
| "b64_sextets [a] = [a div 4, (a mod 4) * 16]"
| "b64_sextets [] = []"

definition EncodeToString :: "byte list \<Rightarrow> string" where
  "EncodeToString bs = map b64_char (b64_sextets (map unat bs))"

definition generateSecureRandomString :: "(nat \<Rightarrow> byte list option) \<Rightarrow> nat \<Rightarrow> string option" where
  "generateSecureRandomString rand n =
     (let numBytes = (n * 6 + 7) div 8 in
      case rand numBytes of
        None \<Rightarrow> None
      | Some bytes \<Rightarrow>
          (let s = EncodeToString bytes in Some (if n < length s then take n s else s)))"

section \<open>The handlers\<close>

text \<open>The two random strings come from two reads of the random source.\<close>

definition handleLogin ::
  "config \<Rightarrow> (string \<Rightarrow> string \<Rightarrow> string) \<Rightarrow> (nat \<Rightarrow> byte list option) \<Rightarrow> (nat \<Rightarrow> byte list option) \<Rightarrow> response" where
  "handleLogin c authCodeURL rand1 rand2 =
     (case generateSecureRandomString rand1 32 of
        None \<Rightarrow> http_error [] 500
      | Some state \<Rightarrow>
          (case generateSecureRandomString rand2 32 of
             None \<Rightarrow> http_error [] 500
           | Some nonce \<Rightarrow>
               redirect [setFlowCookie c ''state'' state, setFlowCookie c ''nonce'' nonce]
                 (authCodeURL state nonce)))"

text \<open>
  \<open>exchange code\<close> is the token endpoint's answer: \<open>None\<close> for an error, otherwise the extra field
  \<open>id_token\<close> if it is a string.  \<open>validate\<close> is \<open>validateRawToken\<close>.
\<close>

definition handleCallback ::
  "config \<Rightarrow> (string \<Rightarrow> string option option) \<Rightarrow> (string \<Rightarrow> token_error + claims) \<Rightarrow> request \<Rightarrow> response" where
  "handleCallback c exchange validate r =
     (let cleared_cookies = clearFlowCookies c in
      case Cookie r ''state'' of
        None \<Rightarrow> http_error cleared_cookies 400
      | Some stateCookie \<Rightarrow>
          if stateCookie \<noteq> Query r ''state'' then http_error cleared_cookies 400
          else
            (case exchange (Query r ''code'') of
               None \<Rightarrow> http_error cleared_cookies 500
             | Some extra \<Rightarrow>
                 (case extra of
                    None \<Rightarrow> http_error cleared_cookies 500
                  | Some rawIDToken \<Rightarrow>
                      (case validate rawIDToken of
                         Inl e \<Rightarrow> http_error cleared_cookies 401
                       | Inr cl \<Rightarrow>
                           (case Cookie r ''nonce'' of
                              None \<Rightarrow> http_error cleared_cookies 400
                            | Some nonceCookie \<Rightarrow>
                                (let tokenNonce = (case cl ''nonce'' of Some (CString s) \<Rightarrow> s | _ \<Rightarrow> []) in
                                 if tokenNonce = [] \<or> tokenNonce \<noteq> nonceCookie
                                 then http_error cleared_cookies 400
                                 else redirect (cleared_cookies @ [session_cookie c rawIDToken])
                                   (ContextRoot c)))))))"

definition handleLogout :: "config \<Rightarrow> response" where
  "handleLogout c =
     redirect [\<lparr>ck_Name = ''id_token'', ck_Value = [], ck_Path = ContextRoot c, ck_HttpOnly = True, ck_Secure = True,
       ck_SameSite = StrictMode, ck_Expires = Some 0, ck_MaxAge = -1\<rparr>] (ContextRoot c)"

section \<open>Discovery\<close>

record discovery =
  d_Issuer :: string
  d_TokenUrl :: string
  d_AuthUrl :: string
  d_JWKSURI :: string

datatype init_error = FetchFailed | NoJWKSURI | RefreshFailed

record oauth2_config =
  o2_ClientID :: string
  o2_ClientSecret :: string
  o2_RedirectURL :: string
  o2_Scopes :: "string list"
  o2_AuthURL :: string
  o2_TokenURL :: string

definition setupOAuthConfig :: "oauth_config \<Rightarrow> oauth2_config" where
  "setupOAuthConfig oc =
     \<lparr>o2_ClientID = ClientID oc, o2_ClientSecret = ClientSecret oc, o2_RedirectURL = RedirectURL oc,
      o2_Scopes = Scopes oc, o2_AuthURL = AuthURL oc, o2_TokenURL = TokenURL oc\<rparr>"

definition apply_discovery :: "discovery \<Rightarrow> oauth_config \<Rightarrow> oauth_config" where
  "apply_discovery d oc =
     (let oc = (if d_Issuer d \<noteq> [] then oc\<lparr>Issuer := d_Issuer d\<rparr> else oc);
          oc = (if AuthURL oc = [] then oc\<lparr>AuthURL := d_AuthUrl d\<rparr> else oc)
      in if TokenURL oc = [] then oc\<lparr>TokenURL := d_TokenUrl d\<rparr> else oc)"

text \<open>
  \<open>wellKnown\<close> is the discovery document (\<open>None\<close> when it cannot be fetched or decoded) and \<open>jwks\<close> the
  answer of the JWKS endpoint it names.
\<close>

definition fetchWellKnownOIDCConfig ::
  "('cert, 'k) certs \<Rightarrow> int \<Rightarrow> discovery option \<Rightarrow> (string \<Rightarrow> jwk list option) \<Rightarrow> config
     \<Rightarrow> init_error + config \<times> 'k keyStore" where
  "fetchWellKnownOIDCConfig cs now wellKnown jwks c =
     (case wellKnown of
        None \<Rightarrow> Inl FetchFailed
      | Some d \<Rightarrow>
          (let c' = c\<lparr>OAuthConfig := apply_discovery d (OAuthConfig c)\<rparr> in
           if d_JWKSURI d = [] then Inl NoJWKSURI
           else
             (case refresh cs now (jwks (d_JWKSURI d)) (newKeyStore 0) of
                (False, ks) \<Rightarrow> Inl RefreshFailed
              | (True, ks) \<Rightarrow> Inr (c', ks))))"

record ('k, 'l) authenticator =
  au_cfg :: config
  au_oauthConfig :: oauth2_config
  au_keys :: "'k keyStore option"
  au_limiters :: "'l limiters"

definition NewAuthenticator ::
  "('cert, 'k) certs \<Rightarrow> int \<Rightarrow> discovery option \<Rightarrow> (string \<Rightarrow> jwk list option) \<Rightarrow> config
     \<Rightarrow> init_error + ('k, 'l) authenticator" where
  "NewAuthenticator cs now wellKnown jwks c =
     (case fetchWellKnownOIDCConfig cs now wellKnown jwks c of
        Inl e \<Rightarrow> Inl e
      | Inr (c', ks) \<Rightarrow>
          Inr \<lparr>au_cfg = c', au_oauthConfig = setupOAuthConfig (OAuthConfig c'), au_keys = Some ks,
               au_limiters = Map.empty\<rparr>)"

end
