(* ===== verification/OAuthProps.thy ===== *)
theory OAuthProps
  imports OAuth
begin

text \<open>
  What the authentication endpoints promise: a session starts exactly when state, token and nonce
  check out, flow cookies never outlive the callback, a complete login works, clients cannot forge
  their address past the trusted proxies, and rate limits of different addresses do not interfere.
\<close>

section \<open>The callback\<close>

text \<open>What a browser stores: \<open>Max-Age\<close> below zero deletes.\<close>

definition store_cookie :: "http_cookie \<Rightarrow> (string \<rightharpoonup> string) \<Rightarrow> (string \<rightharpoonup> string)" where
  "store_cookie ck jar = (if ck_MaxAge ck < 0 then jar(ck_Name ck := None) else jar(ck_Name ck \<mapsto> ck_Value ck))"

definition jar_after :: "response \<Rightarrow> (string \<rightharpoonup> string) \<Rightarrow> (string \<rightharpoonup> string)" where
  "jar_after resp jar = fold store_cookie (set_cookies resp) jar"

text \<open>The conditions under which the callback accepts \<open>raw\<close> as the session's token.\<close>

definition callback_accepts ::
  "(string \<Rightarrow> string option option) \<Rightarrow> (string \<Rightarrow> token_error + claims) \<Rightarrow> request \<Rightarrow> string \<Rightarrow> bool" where
  "callback_accepts exchange validate r raw \<longleftrightarrow>
     Cookie r ''state'' = Some (Query r ''state'') \<and> exchange (Query r ''code'') = Some (Some raw) \<and>
     (\<exists>cl n. validate raw = Inr cl \<and> Cookie r ''nonce'' = Some n \<and> n \<noteq> [] \<and> cl ''nonce'' = Some (CString n))"

lemma nonce_check:
  "((case x of Some (CString s) \<Rightarrow> s | _ \<Rightarrow> []) = [] \<or> (case x of Some (CString s) \<Rightarrow> s | _ \<Rightarrow> []) \<noteq> n) \<longleftrightarrow>
     \<not> (n \<noteq> [] \<and> x = Some (CString n))"
  by (auto split: option.split claim.split)

lemma handleCallback_cases:
  obtains (session) raw where "callback_accepts exchange validate r raw"
      "\<And>raw'. callback_accepts exchange validate r raw' \<Longrightarrow> raw' = raw"
      "handleCallback c exchange validate r =
         redirect (clearFlowCookies c @ [session_cookie c raw]) (ContextRoot c)"
  | (error) code where "\<And>raw. \<not> callback_accepts exchange validate r raw" "400 \<le> code"
      "handleCallback c exchange validate r = http_error (clearFlowCookies c) code"
proof (cases "\<exists>raw cl n. Cookie r ''state'' = Some (Query r ''state'') \<and>
    exchange (Query r ''code'') = Some (Some raw) \<and> validate raw = Inr cl \<and> Cookie r ''nonce'' = Some n")
  case False
  then have "\<not> callback_accepts exchange validate r raw" for raw by (auto simp: callback_accepts_def)
  moreover have "\<exists>code \<ge> 400. handleCallback c exchange validate r = http_error (clearFlowCookies c) code"
    using False by (auto simp: handleCallback_def http_error_def Let_def split: option.split sum.split)
  ultimately show thesis using error by blast
next
  case True
  then obtain raw cl n where t: "Cookie r ''state'' = Some (Query r ''state'')"
    "exchange (Query r ''code'') = Some (Some raw)" "validate raw = Inr cl" "Cookie r ''nonce'' = Some n"
    by blast
  have run: "handleCallback c exchange validate r =
      (if n \<noteq> [] \<and> cl ''nonce'' = Some (CString n)
       then redirect (clearFlowCookies c @ [session_cookie c raw]) (ContextRoot c)
       else http_error (clearFlowCookies c) 400)"
    using t nonce_check [of "cl ''nonce''" n] by (simp add: handleCallback_def Let_def)
  show thesis
  proof (cases "n \<noteq> [] \<and> cl ''nonce'' = Some (CString n)")
    case True
    with t run session [of raw] show thesis by (auto simp: callback_accepts_def)
  next
    case False
    then have "\<not> callback_accepts exchange validate r raw'" for raw'
      using t by (auto simp: callback_accepts_def)
    then show thesis using run False by (intro error [of 400]) simp_all
  qed
qed


text \<open>
  The flow cookies are spent by the callback: whatever its outcome, the browser holds neither a
  \<open>state\<close> nor a \<open>nonce\<close> cookie afterwards, and apart from the session cookie of a successful login
  its other cookies are unchanged.
\<close>

theorem callback_spends_flow_cookies:
  "jar_after (handleCallback c exchange validate r) jar ''state'' = None \<and>
   jar_after (handleCallback c exchange validate r) jar ''nonce'' = None \<and>
   (\<forall>name. name \<notin> {''state'', ''nonce'', ''id_token''} \<longrightarrow>
      jar_after (handleCallback c exchange validate r) jar name = jar name)"
proof (cases rule: handleCallback_cases [of exchange validate r c])
  case (session raw)
  show ?thesis
    unfolding session(3)
    by (simp add: jar_after_def redirect_def clearFlowCookies_def session_cookie_def store_cookie_def)
next
  case (error code)
  show ?thesis
    unfolding error(3) by (simp add: jar_after_def http_error_def clearFlowCookies_def store_cookie_def)
qed

text \<open>
  C25: a complete login works: when the browser follows the redirect of \<open>handleLogin\<close> and comes back
  with its cookies and the same state, and the provider issues a token that validates and carries
  the nonce it was sent, the browser ends up with that token as its session cookie, and
  \<open>ValidateToken\<close> validates that very token on its next requests.
\<close>

theorem login_flow:
  assumes random: "generateSecureRandomString rand1 32 = Some state" "generateSecureRandomString rand2 32 = Some nonce"
    and ret: "Cookie r = jar_after (handleLogin c authCodeURL rand1 rand2) jar" "Query r ''state'' = state"
    and provider: "exchange (Query r ''code'') = Some (Some raw)" "validate raw = Inr cl"
      "cl ''nonce'' = Some (CString nonce)" "nonce \<noteq> []"
    and age: "0 < SessionMaxAge (OAuthConfig c)"
    and later: "Cookie r' = jar_after (handleCallback c exchange validate r) (Cookie r)"
  shows "location (handleLogin c authCodeURL rand1 rand2) = Some (authCodeURL state nonce) \<and>
    status (handleCallback c exchange validate r) = 307 \<and> raw_token r' = Some raw"
proof -
  have login: "handleLogin c authCodeURL rand1 rand2 =
      redirect [setFlowCookie c ''state'' state, setFlowCookie c ''nonce'' nonce] (authCodeURL state nonce)"
    using random by (simp add: handleLogin_def)
  have cookies: "Cookie r ''state'' = Some state" "Cookie r ''nonce'' = Some nonce"
    by (simp_all add: ret login jar_after_def redirect_def setFlowCookie_def store_cookie_def)
  have run: "handleCallback c exchange validate r =
      redirect (clearFlowCookies c @ [session_cookie c raw]) (ContextRoot c)"
    using cookies ret(2) provider by (simp add: handleCallback_def Let_def)
  have "Cookie r' ''id_token'' = Some raw"
    using age by (simp add: later run jar_after_def redirect_def clearFlowCookies_def session_cookie_def
        store_cookie_def)
  then show ?thesis by (simp add: login run redirect_def raw_token_def)
qed

section \<open>Witnesses for the login flow\<close>

definition demo_rand :: "byte \<Rightarrow> nat \<Rightarrow> byte list option" where
  "demo_rand b n = Some (replicate n b)"

lemma demo_random: "generateSecureRandomString (demo_rand 0) 32 = Some (replicate 32 CHR ''A'')"
  by code_simp

definition demo_login :: response where
  "demo_login = handleLogin example_config (\<lambda>s n. s @ n) (demo_rand 0) (demo_rand 0)"

definition demo_back :: request where
  "demo_back =
     \<lparr>RemoteAddr = ''10.0.0.1:1'', Header = (\<lambda>_. []), Cookie = jar_after demo_login Map.empty,
      Query = (\<lambda>k. if k = ''state'' then replicate 32 CHR ''A'' else [])\<rparr>"

definition demo_callback :: response where
  "demo_callback =
     handleCallback example_config (\<lambda>_. Some (Some ''tok''))
       (\<lambda>_. Inr [''nonce'' \<mapsto> CString (replicate 32 CHR ''A'')]) demo_back"

theorem login_flow_witness:
  "status demo_callback = 307 \<and> raw_token (demo_back\<lparr>Cookie := jar_after demo_callback (Cookie demo_back)\<rparr>) = Some ''tok''"
  using login_flow [OF demo_random demo_random, of demo_back example_config "\<lambda>s n. s @ n" Map.empty
      "\<lambda>_. Some (Some ''tok'')" "''tok''" "\<lambda>_. Inr [''nonce'' \<mapsto> CString (replicate 32 CHR ''A'')]"
      "[''nonce'' \<mapsto> CString (replicate 32 CHR ''A'')]"
      "demo_back\<lparr>Cookie := jar_after demo_callback (Cookie demo_back)\<rparr>"]
  by (simp add: demo_back_def demo_login_def demo_callback_def example_config_def)

theorem callback_spends_flow_cookies_witness:
  "jar_after demo_callback [''theme'' \<mapsto> ''dark''] ''theme'' = Some ''dark'' \<and>
   jar_after demo_callback [''theme'' \<mapsto> ''dark''] ''nonce'' = None"
  using callback_spends_flow_cookies [of example_config "\<lambda>_. Some (Some ''tok'')"
      "\<lambda>_. Inr [''nonce'' \<mapsto> CString (replicate 32 CHR ''A'')]" demo_back "[''theme'' \<mapsto> ''dark'']"]
  by (simp add: demo_callback_def)

section \<open>Client addresses and rate limits\<close>

lemma Split_first: "Split c s ! 0 = takeWhile (\<lambda>x. x \<noteq> c) s"
proof (induction s)
  case (Cons x s)
  then show ?case by (cases "Split c s") auto
qed simp

text \<open>
  C26: a client cannot forge its address: unless the connection itself comes from a configured
  trusted proxy, \<open>clientIP\<close> is the address of the connection and no header has any influence; from a
  trusted proxy, \<open>X-Real-IP\<close> takes precedence over the first entry of \<open>X-Forwarded-For\<close>.
\<close>

theorem clientIP_not_forged:
  assumes host: "host = (case SplitHostPort (RemoteAddr r) of None \<Rightarrow> RemoteAddr r | Some h \<Rightarrow> h)"
  shows "((\<forall>ip cidr. ParseIP host = Some ip \<and> cidr \<in> set proxies \<longrightarrow> \<not> Contains cidr ip) \<longrightarrow>
      clientIP r proxies = host) \<and>
    (\<forall>ip cidr. ParseIP host = Some ip \<and> cidr \<in> set proxies \<and> Contains cidr ip \<longrightarrow>
      clientIP r proxies =
        (if Header r ''X-Real-IP'' \<noteq> [] then TrimSpace (Header r ''X-Real-IP'')
         else if Header r ''X-Forwarded-For'' = [] then host
         else TrimSpace (takeWhile (\<lambda>x. x \<noteq> CHR '','') (Header r ''X-Forwarded-For''))))"
proof (intro conjI impI allI)
  assume "\<forall>ip cidr. ParseIP host = Some ip \<and> cidr \<in> set proxies \<longrightarrow> \<not> Contains cidr ip"
  then show "clientIP r proxies = host"
    by (auto simp: clientIP_def Let_def host [symmetric] split: option.split)
next
  fix ip cidr
  assume t: "ParseIP host = Some ip \<and> cidr \<in> set proxies \<and> Contains cidr ip"
  then have "proxies \<noteq> []" "\<exists>cidr \<in> set proxies. Contains cidr ip" by auto
  with t show "clientIP r proxies =
      (if Header r ''X-Real-IP'' \<noteq> [] then TrimSpace (Header r ''X-Real-IP'')
       else if Header r ''X-Forwarded-For'' = [] then host
       else TrimSpace (takeWhile (\<lambda>x. x \<noteq> CHR '','') (Header r ''X-Forwarded-For'')))"
    by (simp add: clientIP_def Let_def host [symmetric] Split_first)
qed

theorem clientIP_not_forged_witness:
  "clientIP \<lparr>RemoteAddr = ''203.0.113.9:4711'', Header = (\<lambda>_. ''10.0.0.1''), Cookie = Map.empty, Query = (\<lambda>_. [])\<rparr> []
     = ''203.0.113.9''"
proof -
  let ?r = "\<lparr>RemoteAddr = ''203.0.113.9:4711'', Header = (\<lambda>_. ''10.0.0.1''), Cookie = Map.empty, Query = (\<lambda>_. [])\<rparr>"
  have h: "''203.0.113.9'' = (case SplitHostPort (RemoteAddr ?r) of None \<Rightarrow> RemoteAddr ?r | Some h \<Rightarrow> h)"
    by code_simp
  from conjunct1 [OF clientIP_not_forged [OF h, of "[]"]] show ?thesis by simp
qed

lemma cleanupLimiters_eq:
  "cleanupLimiters now ips ls ip =
     (if ip \<in> set ips \<and> (\<exists>e. ls ip = Some e \<and> limiterTTL < now - lastSeen e) then None else ls ip)"
proof (induction ips arbitrary: ls)
  case Nil
  then show ?case by simp
next
  case (Cons i ips)
  show ?case by (auto simp: Cons.IH split: option.split)
qed

text \<open>
  Rate limits are kept per client address: a request is decided by the limiter of its own
  address, a new one for an address that is not known, it reaches the handler exactly when that
  limiter allows it, and it leaves the limiters of all other addresses alone.  A cleanup never drops
  the limiter of an address that was seen in the last ten minutes and drops every other one.
\<close>

theorem rate_limit_per_address:
  assumes "ip = clientIP r (TrustedProxies c)"
    and "l = (case ls ip of None \<Rightarrow> newLimiter | Some e \<Rightarrow> limiter e)"
    and "rate_limited newLimiter allow c now r handler ls = (result, ls')"
  shows "result = (if fst (allow now l) then Some (handler r) else None) \<and>
    ls' ip = Some \<lparr>limiter = snd (allow now l), lastSeen = now\<rparr> \<and>
    (\<forall>other. other \<noteq> ip \<longrightarrow> ls' other = ls other) \<and>
    (\<forall>later order e i. set order = dom ls' \<and> ls' i = Some e \<longrightarrow>
       cleanupLimiters later order ls' i = (if later - lastSeen e \<le> limiterTTL then Some e else None))"
proof -
  obtain ok l' where a: "allow now l = (ok, l')" by fastforce
  have "result = (if ok then Some (handler r) else None)" "ls' = ls(ip \<mapsto> \<lparr>limiter = l', lastSeen = now\<rparr>)"
    using assms(3) a by (simp_all add: rate_limited_def authLimiter_def Let_def
        assms(1,2) [symmetric] split: if_splits)
  then show ?thesis by (auto simp: cleanupLimiters_eq a)
qed

text \<open>A limiter that counts down from five, for a concrete run.\<close>

definition demo_allow :: "int \<Rightarrow> nat \<Rightarrow> bool \<times> nat" where
  "demo_allow now n = (0 < n, n - 1)"

theorem rate_limit_per_address_witness:
  "\<exists>result ls'. rate_limited 5 demo_allow example_config 0 demo_back (\<lambda>r. ()) Map.empty = (result, ls') \<and>
     result = Some () \<and> ls' ''192.0.2.7'' = None"
proof -
  obtain result ls' where run: "rate_limited 5 demo_allow example_config 0 demo_back (\<lambda>r. ()) Map.empty = (result, ls')"
    by fastforce
  have ip: "''10.0.0.1'' = clientIP demo_back (TrustedProxies example_config)" by code_simp
  from rate_limit_per_address [OF ip _ run] run show ?thesis by (simp add: demo_allow_def)
qed

end
