(* ===== verification/OAuthStart.thy ===== *)
theory OAuthStart
  imports OAuthProps
begin

text \<open>
  Lemmas on the random strings of the login flow (base64 of the random bytes) and on the start-up of
  the authenticator: discovery, key loading and the resulting configuration.
\<close>

section \<open>Random strings\<close>

lemma digits_unique:
  fixes x y k :: nat
  assumes "x * k + r = y * k + s" and "r < k" and "s < k"
  shows "x = y \<and> r = s"
proof -
  have "(x * k + r) div k = x" "(y * k + s) div k = y" using assms(2,3) by simp_all
  with assms(1) have "x = y" by metis
  with assms(1) show ?thesis by simp
qed

lemma b64_sextets_length: "length (b64_sextets bs) = (length bs * 4 + 2) div 3"
  by (induction bs rule: b64_sextets.induct) simp_all

lemma b64_sextets_bound: "(\<And>b. b \<in> set bs \<Longrightarrow> b < 256) \<Longrightarrow> n \<in> set (b64_sextets bs) \<Longrightarrow> n < 64"
  by (induction bs rule: b64_sextets.induct) (force simp: less_mult_imp_div_less)+

lemma b64_sextets_inj:
  assumes "length xs = length ys" and "\<forall>b \<in> set xs. b < 256" and "\<forall>b \<in> set ys. b < 256"
    and "b64_sextets xs = b64_sextets ys"
  shows "xs = ys"
  using assms
proof (induction xs arbitrary: ys rule: b64_sextets.induct)
  case (1 a b c bs)
  then obtain a' b' c' bs' where ys: "ys = a' # b' # c' # bs'"
    by (cases ys rule: b64_sextets.cases) auto
  have lt: "b div 16 < 16" "b' div 16 < 16" "c div 64 < 4" "c' div 64 < 4"
    using 1(3,4) by (auto simp: ys)
  have eq: "a div 4 = a' div 4" "a mod 4 * 16 + b div 16 = a' mod 4 * 16 + b' div 16"
    "b mod 16 * 4 + c div 64 = b' mod 16 * 4 + c' div 64" "c mod 64 = c' mod 64"
    and rest: "b64_sextets bs = b64_sextets bs'"
    using 1(5) by (simp_all add: ys)
  have "a mod 4 = a' mod 4 \<and> b div 16 = b' div 16" using digits_unique [OF eq(2) lt(1,2)] .
  moreover have "b mod 16 = b' mod 16 \<and> c div 64 = c' div 64" using digits_unique [OF eq(3) lt(3,4)] .
  ultimately have "a = a' \<and> b = b' \<and> c = c'"
    using eq(1,4) by (metis div_mult_mod_eq)
  moreover have "bs = bs'" by (rule "1.IH") (use 1(2-4) rest in \<open>simp_all add: ys\<close>)
  ultimately show ?case by (simp add: ys)
next
  case (2 a b)
  then obtain a' b' where ys: "ys = [a', b']" by (cases ys rule: b64_sextets.cases) auto
  have "b div 16 < 16" "b' div 16 < 16" using 2(2,3) by (auto simp: ys)
  with 2(4) have "a mod 4 = a' mod 4 \<and> b div 16 = b' div 16" by (intro digits_unique) (simp_all add: ys)
  moreover have "a div 4 = a' div 4" "b mod 16 = b' mod 16" using 2(4) by (simp_all add: ys)
  ultimately show ?case by (metis div_mult_mod_eq ys)
next
  case (3 a)
  then obtain a' where ys: "ys = [a']" by (cases ys rule: b64_sextets.cases) auto
  have "a div 4 = a' div 4" "a mod 4 = a' mod 4" using 3(4) by (simp_all add: ys)
  then show ?case by (metis div_mult_mod_eq ys)
qed simp

lemma b64_alphabet_facts: "length b64_alphabet = 64" "distinct b64_alphabet"
  by code_simp+

lemma b64_char_inj: "m < 64 \<Longrightarrow> n < 64 \<Longrightarrow> b64_char m = b64_char n \<longleftrightarrow> m = n"
  by (simp add: b64_char_def nth_eq_iff_index_eq b64_alphabet_facts)

lemma byte_bound: "\<forall>b \<in> set (map unat (bs :: byte list)). b < 256"
  using unsigned_less [where 'a = nat and 'b = 8] by auto

lemma EncodeToString_inj:
  assumes "length bs = length cs" and "EncodeToString bs = EncodeToString cs"
  shows "bs = cs"
proof -
  have lt: "n < 64" if "n \<in> set (b64_sextets (map unat bs)) \<union> set (b64_sextets (map unat cs))" for n
    using that b64_sextets_bound [of "map unat bs" n] b64_sextets_bound [of "map unat cs" n]
      byte_bound [of bs] byte_bound [of cs] by blast
  have "b64_sextets (map unat bs) = b64_sextets (map unat cs)"
    using assms(2) unfolding EncodeToString_def
    by (rule map_inj_on [OF _ inj_onI]) (use lt b64_char_inj in blast)
  with assms(1) have "map unat bs = map unat cs"
    using byte_bound [of bs] byte_bound [of cs] b64_sextets_inj [of "map unat bs" "map unat cs"] by simp
  then show ?thesis by (rule injD [OF inj_mapI [OF inj_unsigned]])
qed

lemma random_string_32:
  assumes "rand 24 = Some bs" and "length bs = 24"
  shows "generateSecureRandomString rand 32 = Some (EncodeToString bs)" and "length (EncodeToString bs) = 32"
proof -
  show "length (EncodeToString bs) = 32"
    by (simp add: EncodeToString_def b64_sextets_length assms(2))
  then show "generateSecureRandomString rand 32 = Some (EncodeToString bs)"
    using assms(1) by (simp add: generateSecureRandomString_def)
qed

text \<open>
  C28: the state and nonce strings keep the whole entropy of the random source: for the length 32 that
  the login asks for, the string has exactly 32 characters, all of them URL-safe, and two different
  outcomes of the 24 random bytes give two different strings (nothing is cut off).
\<close>

theorem random_string_faithful:
  assumes "rand1 24 = Some bs" and "rand2 24 = Some cs" and "length bs = 24" and "length cs = 24"
  shows "\<exists>s t. generateSecureRandomString rand1 32 = Some s \<and> generateSecureRandomString rand2 32 = Some t \<and>
    length s = 32 \<and> set s \<subseteq> set b64_alphabet \<and> (s = t \<longleftrightarrow> bs = cs)"
proof -
  have "set (EncodeToString bs) \<subseteq> set b64_alphabet"
  proof
    fix x assume "x \<in> set (EncodeToString bs)"
    then obtain n where n: "n \<in> set (b64_sextets (map unat bs))" "x = b64_char n"
      by (auto simp: EncodeToString_def)
    then have "n < 64" using b64_sextets_bound byte_bound [of bs] by blast
    with n(2) show "x \<in> set b64_alphabet" by (simp add: b64_char_def b64_alphabet_facts)
  qed
  then show ?thesis
    using random_string_32 [of rand1 bs, OF assms(1,3)] random_string_32 [of rand2 cs, OF assms(2,4)] EncodeToString_inj [of bs cs] assms(3,4)
    by auto
qed

theorem random_string_faithful_witness:
  "\<exists>s t. generateSecureRandomString (demo_rand 0) 32 = Some s \<and> generateSecureRandomString (demo_rand 1) 32 = Some t \<and>
     length s = 32 \<and> s \<noteq> t"
proof -
  have "replicate 24 (0 :: byte) \<noteq> replicate 24 1" by (simp add: numeral_eq_Suc)
  with random_string_faithful [of "demo_rand 0" "replicate 24 0" "demo_rand 1" "replicate 24 1"]
  show ?thesis by (auto simp: demo_rand_def)
qed

section \<open>Starting up\<close>

text \<open>
  An authenticator that starts has signing keys, endpoints that were configured by hand are never
  overridden by discovery, the issuer is the discovered one when there is one, and everything else of
  the configuration is as it was loaded; a provider without a JWKS address or without a usable key
  keeps the server from starting.
\<close>

theorem authenticator_starts:
  assumes "NewAuthenticator certs now wellKnown jwks c = Inr a"
  shows "\<exists>d ks. wellKnown = Some d \<and> d_JWKSURI d \<noteq> [] \<and> au_keys a = Some ks \<and> keys ks \<noteq> Map.empty \<and>
    keys ks = jwks_keys certs (the (jwks (d_JWKSURI d))) \<and> lastRefresh ks = now \<and>
    (let oc = OAuthConfig (au_cfg a); old = OAuthConfig c in
     AuthURL oc = (if AuthURL old = [] then d_AuthUrl d else AuthURL old) \<and>
     TokenURL oc = (if TokenURL old = [] then d_TokenUrl d else TokenURL old) \<and>
     Issuer oc = (if d_Issuer d = [] then Issuer old else d_Issuer d) \<and>
     ClientID oc = ClientID old \<and> SessionMaxAge oc = SessionMaxAge old \<and>
     au_oauthConfig a = setupOAuthConfig oc) \<and>
    (au_cfg a)\<lparr>OAuthConfig := OAuthConfig c\<rparr> = c \<and> au_limiters a = Map.empty"
proof -
  obtain d where d: "wellKnown = Some d" "d_JWKSURI d \<noteq> []"
    using assms by (auto simp: NewAuthenticator_def fetchWellKnownOIDCConfig_def Let_def split: option.splits if_splits)
  obtain ok ks where r: "refresh certs now (jwks (d_JWKSURI d)) (newKeyStore 0) = (ok, ks)" by fastforce
  have ok: ok and a: "a = \<lparr>au_cfg = c\<lparr>OAuthConfig := apply_discovery d (OAuthConfig c)\<rparr>,
      au_oauthConfig = setupOAuthConfig (apply_discovery d (OAuthConfig c)), au_keys = Some ks,
      au_limiters = Map.empty\<rparr>"
    using assms d r by (auto simp: NewAuthenticator_def fetchWellKnownOIDCConfig_def Let_def split: bool.splits)
  from r ok have "install_keys certs (jwks (d_JWKSURI d)) (record_attempt now (newKeyStore 0)) = (True, ks)"
    by (simp add: refresh_def)
  then have ks: "keys ks \<noteq> Map.empty" "keys ks = jwks_keys certs (the (jwks (d_JWKSURI d)))" "lastRefresh ks = now"
    by (cases "jwks (d_JWKSURI d)"; auto simp: install_keys_eq record_attempt_def split: if_splits)+
  show ?thesis
    using d ks by (auto simp: a Let_def apply_discovery_def)
qed

definition demo_discovery :: discovery where
  "demo_discovery =
     \<lparr>d_Issuer = ''https://idp'', d_TokenUrl = ''https://idp/t'', d_AuthUrl = ''https://idp/a'', d_JWKSURI = ''https://idp/k''\<rparr>"

theorem authenticator_starts_witness:
  "\<exists>a :: (nat, nat) authenticator. \<exists>ks.
     NewAuthenticator demo_certs 7 (Some demo_discovery) (\<lambda>_. Some demo_jwks) example_config = Inr a \<and>
     au_keys a = Some ks \<and> keys ks \<noteq> Map.empty"
proof -
  obtain a :: "(nat, nat) authenticator" where
    a: "NewAuthenticator demo_certs 7 (Some demo_discovery) (\<lambda>_. Some demo_jwks) example_config = Inr a"
    by (simp add: NewAuthenticator_def fetchWellKnownOIDCConfig_def demo_discovery_def refresh_def install_keys_def
        record_attempt_def newKeyStore_def demo_jwks_def demo_certs_def usable_key_def Let_def)
  from authenticator_starts [OF a] a show ?thesis by blast
qed

end
