(* ===== verification/Server.thy ===== *)
theory Server
  imports HubProps OAuthStart
begin

text \<open>
  \<open>cmd/server/main.go\<close> and \<open>cmd/healthcheck/main.go\<close>: the route table, the wiring of configuration,
  authenticator and hub at start-up, the readiness endpoint, the authentication routes as the mux
  calls them, and the container's health probe.

  \<open>http.ServeMux\<close> is modelled for the patterns the program can register, a host (usually empty)
  followed by a path, without method, wildcard or escape: a pattern that ends in a slash stands for
  the whole subtree, any other for one path; patterns with a host come first and longer patterns
  win; registering the same pattern twice panics.  Paths are those the mux matches, after cleaning.
\<close>

section \<open>The route table\<close>

datatype route = Static | Login | Callback | Logout | Ws | Healthz

record pattern =
  p_host :: string
  p_path :: string

definition parsePattern :: "string \<Rightarrow> pattern option" where
  "parsePattern s =
     (if CHR ''/'' \<in> set s
      then Some \<lparr>p_host = takeWhile (\<lambda>x. x \<noteq> CHR ''/'') s, p_path = dropWhile (\<lambda>x. x \<noteq> CHR ''/'') s\<rparr>
      else None)"

type_synonym mux = "(pattern \<times> route) list"

definition pattern_matches :: "string \<Rightarrow> string \<Rightarrow> pattern \<Rightarrow> bool" where
  "pattern_matches host path p \<longleftrightarrow>
     (p_host p = [] \<or> p_host p = host) \<and>
     (p_path p = path \<or> HasSuffix (p_path p) ''/'' \<and> HasPrefix path (p_path p))"

definition more_specific :: "pattern \<Rightarrow> pattern \<Rightarrow> bool" where
  "more_specific p q \<longleftrightarrow>
     (if (p_host p = []) = (p_host q = []) then length (p_path q) < length (p_path p) else p_host p \<noteq> [])"

fun mux_best :: "string \<Rightarrow> string \<Rightarrow> (pattern \<times> route) option \<Rightarrow> mux \<Rightarrow> (pattern \<times> route) option" where
  "mux_best host path best [] = best"
| "mux_best host path best ((p, r) # m) =
     mux_best host path
       (if pattern_matches host path p \<and> (case best of None \<Rightarrow> True | Some (q, _) \<Rightarrow> more_specific p q)
        then Some (p, r) else best) m"

definition mux_match :: "mux \<Rightarrow> string \<Rightarrow> string \<Rightarrow> route option" where
  "mux_match m host path = map_option snd (mux_best host path None m)"

section \<open>Start-up\<close>

datatype start_error =
    ConfigFatal
  | AuthFatal init_error
  | DockerFatal
  | BadPattern string
  | PatternConflict string

definition mux_handle :: "string \<Rightarrow> route \<Rightarrow> mux \<Rightarrow> start_error + mux" where
  "mux_handle s r m =
     (case parsePattern s of
        None \<Rightarrow> Inl (BadPattern s)
      | Some p \<Rightarrow> if p \<in> fst ` set m then Inl (PatternConflict s) else Inr (m @ [(p, r)]))"

fun mux_handle_all :: "(string \<times> route) list \<Rightarrow> mux \<Rightarrow> start_error + mux" where
  "mux_handle_all [] m = Inr m"
| "mux_handle_all ((s, r) # srs) m =
     (case mux_handle s r m of Inl e \<Rightarrow> Inl e | Inr m' \<Rightarrow> mux_handle_all srs m')"

text \<open>\<open>Authenticator.register\<close>.\<close>

definition register_auth :: "config \<Rightarrow> mux \<Rightarrow> start_error + mux" where
  "register_auth c m =
     mux_handle_all
       [(ContextRoot c @ ''login'', Login), (ContextRoot c @ ''callback'', Callback),
        (ContextRoot c @ ''logout'', Logout)] m"

text \<open>What start-up gets from outside: the provider's documents and whether the Docker client opens.\<close>

record ('cert, 'k) outside =
  out_certs :: "('cert, 'k) certs"
  out_now :: int
  out_wellKnown :: "discovery option"
  out_jwks :: "string \<Rightarrow> jwk list option"
  out_docker :: bool

definition RegisterOAuthHandlers ::
  "('cert, 'k) outside \<Rightarrow> config \<Rightarrow> mux \<Rightarrow> start_error + ('k, 'l) authenticator option \<times> mux" where
  "RegisterOAuthHandlers out c m =
     (if \<not> AuthEnabled c then Inr (None, m)
      else
        (case NewAuthenticator (out_certs out) (out_now out) (out_wellKnown out) (out_jwks out) c of
           Inl e \<Rightarrow> Inl (AuthFatal e)
         | Inr a \<Rightarrow>
             (case register_auth (au_cfg a) m of
                Inl e \<Rightarrow> Inl e
              | Inr m' \<Rightarrow> Inr (Some a, m'))))"

definition RegisterDockerHandlers :: "('cert, 'k) outside \<Rightarrow> config \<Rightarrow> mux \<Rightarrow> start_error + hub \<times> mux" where
  "RegisterDockerHandlers out c m =
     (if \<not> out_docker out then Inl DockerFatal
      else
        (case mux_handle (ContextRoot c @ ''ws'') Ws m of
           Inl e \<Rightarrow> Inl e
         | Inr m' \<Rightarrow> Inr (newHub c, m')))"

record ('k, 'l) server =
  sv_addr :: string
  sv_mux :: mux
  sv_auth :: "('k, 'l) authenticator option"
  sv_hub :: hub

text \<open>
  \<open>main\<close> up to \<open>ListenAndServe\<close>.  The authenticator writes the discovered endpoints through the
  configuration pointer, so the hub is built from the updated configuration.  The token validator
  of the hub is \<open>auth.ValidateToken\<close>, present exactly when \<open>sv_auth\<close> is.
\<close>

definition server_main ::
  "('cert, 'k) outside \<Rightarrow> (string \<Rightarrow> string) \<Rightarrow> (string \<Rightarrow> string option) \<Rightarrow> start_error + ('k, 'l) server" where
  "server_main out env readFile =
     (case LoadConfig env readFile of
        None \<Rightarrow> Inl ConfigFatal
      | Some c \<Rightarrow>
          (case mux_handle (ContextRoot c) Static [] of
             Inl e \<Rightarrow> Inl e
           | Inr m1 \<Rightarrow>
               (case RegisterOAuthHandlers out c m1 of
                  Inl e \<Rightarrow> Inl e
                | Inr (auth, m2) \<Rightarrow>
                    (let c' = (case auth of None \<Rightarrow> c | Some a \<Rightarrow> au_cfg a) in
                     case RegisterDockerHandlers out c' m2 of
                       Inl e \<Rightarrow> Inl e
                     | Inr (h, m3) \<Rightarrow>
                         (case mux_handle ''/healthz'' Healthz m3 of
                            Inl e \<Rightarrow> Inl e
                          | Inr m4 \<Rightarrow>
                              Inr \<lparr>sv_addr = CHR '':'' # ListenerPort c', sv_mux = m4, sv_auth = auth,
                                   sv_hub = h\<rparr>)))))"

section \<open>Handlers\<close>

definition healthzHandler :: "bool \<Rightarrow> nat \<times> string" where
  "healthzHandler ready = (if ready then (200, ''ok'') else (503, ''not ready''))"

text \<open>The probe: the URL it asks for and its exit code; \<open>get\<close> is the status of the answer, if any.\<close>

definition healthcheck_url :: "(string \<Rightarrow> string) \<Rightarrow> string" where
  "healthcheck_url env =
     (let port = env ''LISTENER_PORT''; port = (if port = [] then ''8080'' else port)
      in ''http://127.0.0.1:'' @ port @ ''/healthz'')"

definition healthcheck_main :: "(string \<Rightarrow> string) \<Rightarrow> (string \<Rightarrow> nat option) \<Rightarrow> nat" where
  "healthcheck_main env get =
     (case get (healthcheck_url env) of
        None \<Rightarrow> 1
      | Some code \<Rightarrow> if code \<noteq> 200 then 1 else 0)"

text \<open>The token check of \<open>handleConnections\<close>; calling an absent validator would panic.\<close>

definition check_token ::
  "'k jwt_lib \<Rightarrow> ('cert, 'k) certs \<Rightarrow> int \<Rightarrow> jwk list option \<Rightarrow> request \<Rightarrow> ('k, 'l) server \<Rightarrow> bool go" where
  "check_token lib cs now answer r sv =
     (if AuthEnabled (cfg (sv_hub sv)) then
        (case sv_auth sv of
           None \<Rightarrow> Inl NilDereference
         | Some a \<Rightarrow>
             (case fst (ValidateToken lib cs (OAuthConfig (au_cfg a)) now answer r (au_keys a)) of
                Inl e \<Rightarrow> Inr False
              | Inr cl \<Rightarrow> Inr True))
      else Inr True)"

text \<open>
  The authentication routes as \<open>register\<close> wires them.  The rate limiter and the oauth2 library are
  arguments; \<open>now\<close> and \<open>answer\<close> serve a key refresh, should the callback's validation need one.
\<close>

record 'l auth_deps =
  dep_newLimiter :: 'l
  dep_allow :: "int \<Rightarrow> 'l \<Rightarrow> bool \<times> 'l"
  dep_authCodeURL :: "oauth2_config \<Rightarrow> string \<Rightarrow> string \<Rightarrow> string"
  dep_exchange :: "oauth2_config \<Rightarrow> string \<Rightarrow> string option option"
  dep_rand1 :: "nat \<Rightarrow> byte list option"
  dep_rand2 :: "nat \<Rightarrow> byte list option"

text \<open>The token that a callback validates, if it gets that far.\<close>

definition callback_token :: "(string \<Rightarrow> string option option) \<Rightarrow> request \<Rightarrow> string option" where
  "callback_token exchange r =
     (if Cookie r ''state'' = Some (Query r ''state'')
      then (case exchange (Query r ''code'') of Some (Some raw) \<Rightarrow> Some raw | _ \<Rightarrow> None)
      else None)"

definition callback_run ::
  "'l auth_deps \<Rightarrow> 'k jwt_lib \<Rightarrow> ('cert, 'k) certs \<Rightarrow> int \<Rightarrow> jwk list option \<Rightarrow> ('k, 'l) authenticator \<Rightarrow> request
     \<Rightarrow> response \<times> 'k keyStore option" where
  "callback_run deps lib cs now answer a r =
     (let exchange = dep_exchange deps (au_oauthConfig a);
          validate = (\<lambda>raw. validateRawToken lib cs (OAuthConfig (au_cfg a)) now answer raw (au_keys a))
      in (handleCallback (au_cfg a) exchange (fst \<circ> validate) r,
          case callback_token exchange r of None \<Rightarrow> au_keys a | Some raw \<Rightarrow> snd (validate raw)))"

definition serve_auth ::
  "'l auth_deps \<Rightarrow> 'k jwt_lib \<Rightarrow> ('cert, 'k) certs \<Rightarrow> int \<Rightarrow> jwk list option \<Rightarrow> route \<Rightarrow> request
     \<Rightarrow> ('k, 'l) authenticator \<Rightarrow> (response \<times> ('k, 'l) authenticator) option" where
  "serve_auth deps lib cs now answer rt r a =
     (let limit = (\<lambda>handler. rate_limited (dep_newLimiter deps) (dep_allow deps) (au_cfg a) now r handler (au_limiters a));
          finish = (\<lambda>(res, ls).
            (case res of
               None \<Rightarrow> (http_error [] 429, a\<lparr>au_limiters := ls\<rparr>)
             | Some (resp, ks) \<Rightarrow> (resp, a\<lparr>au_limiters := ls, au_keys := ks\<rparr>)))
      in case rt of
           Login \<Rightarrow>
             Some (finish (limit (\<lambda>_.
               (handleLogin (au_cfg a) (dep_authCodeURL deps (au_oauthConfig a)) (dep_rand1 deps) (dep_rand2 deps),
                au_keys a))))
         | Callback \<Rightarrow> Some (finish (limit (callback_run deps lib cs now answer a)))
         | Logout \<Rightarrow> Some (handleLogout (au_cfg a), a)
         | _ \<Rightarrow> None)"

end
