(* ===== verification/ServerProps.thy ===== *)
theory ServerProps
  imports Server
begin

text \<open>
  What the wiring guarantees: which handler a path reaches, what can keep the server from starting,
  that the hub never calls an absent token validator, that the health probe asks the right port and
  reports readiness, and that the cookie a callback sets is accepted afterwards.
\<close>

section \<open>Routes\<close>

lemma parsePattern_Some: "CHR ''/'' \<in> set s \<Longrightarrow> \<exists>p. parsePattern s = Some p"
  by (simp add: parsePattern_def)

lemma parsePattern_inj: "parsePattern s = Some p \<Longrightarrow> parsePattern t = Some p \<Longrightarrow> s = t"
  unfolding parsePattern_def
  by (metis (no_types, lifting) option.distinct(1) option.inject pattern.ext_inject takeWhile_dropWhile_id)

lemma parsePattern_rooted: "parsePattern (CHR ''/'' # s) = Some \<lparr>p_host = [], p_path = CHR ''/'' # s\<rparr>"
  by (simp add: parsePattern_def)

text \<open>Registering distinct patterns, all with a slash, succeeds.\<close>

lemma mux_handle_all_ok:
  assumes "distinct (map fst srs)" and "\<forall>s \<in> fst ` set srs. CHR ''/'' \<in> set s"
    and "\<forall>s \<in> fst ` set srs. \<forall>p. parsePattern s = Some p \<longrightarrow> p \<notin> fst ` set m"
  shows "mux_handle_all srs m = Inr (m @ map (\<lambda>(s, r). (the (parsePattern s), r)) srs)"
  using assms
proof (induction srs arbitrary: m)
  case Nil
  then show ?case by simp
next
  case (Cons sr srs)
  obtain s r where sr: "sr = (s, r)" by (cases sr)
  obtain p where p: "parsePattern s = Some p" using Cons.prems(2) sr parsePattern_Some [of s] by auto
  have h: "mux_handle s r m = Inr (m @ [(p, r)])"
    using Cons.prems(3) p by (auto simp: mux_handle_def sr)
  have "mux_handle_all srs (m @ [(p, r)]) =
      Inr ((m @ [(p, r)]) @ map (\<lambda>(s, r). (the (parsePattern s), r)) srs)"
  proof (rule Cons.IH)
    show "distinct (map fst srs)" using Cons.prems(1) by simp
    show "\<forall>s \<in> fst ` set srs. CHR ''/'' \<in> set s" using Cons.prems(2) by simp
    have "p \<noteq> q" if "t \<in> fst ` set srs" "parsePattern t = Some q" for t q
      using that p Cons.prems(1) parsePattern_inj [of s p t] by (auto simp: sr)
    then show "\<forall>s \<in> fst ` set srs. \<forall>q. parsePattern s = Some q \<longrightarrow> q \<notin> fst ` set (m @ [(p, r)])"
      using Cons.prems(3) by auto
  qed
  then show ?case by (simp add: sr h p)
qed

text \<open>All routes, in the order in which they are registered.\<close>

definition all_routes :: "config \<Rightarrow> (string \<times> route) list" where
  "all_routes c =
     (ContextRoot c, Static) #
     (if AuthEnabled c
      then [(ContextRoot c @ ''login'', Login), (ContextRoot c @ ''callback'', Callback),
            (ContextRoot c @ ''logout'', Logout)]
      else []) @
     [(ContextRoot c @ ''ws'', Ws), (''/healthz'', Healthz)]"

lemma slash_end:
  assumes "HasSuffix root ''/''" obtains t where "root = t @ ''/''"
  using assms by (auto simp: HasSuffix_iff)

lemma healthz_not_under: "HasSuffix root ''/'' \<Longrightarrow> CHR ''/'' \<notin> set x \<Longrightarrow> x \<noteq> ''healthz'' \<Longrightarrow> ''/healthz'' \<noteq> root @ x"
proof (elim slash_end)
  fix t assume x: "CHR ''/'' \<notin> set x" "x \<noteq> ''healthz''" and r: "root = t @ ''/''"
  show "''/healthz'' \<noteq> root @ x"
  proof
    assume eq: "''/healthz'' = root @ x"
    have "takeWhile (\<lambda>y. y \<noteq> CHR ''/'') (rev x @ rev root) = rev x"
      using x(1) by (subst takeWhile_append2) (auto simp: r)
    then have "takeWhile (\<lambda>y. y \<noteq> CHR ''/'') (rev ''/healthz'') = rev x" by (simp only: eq rev_append)
    then have "rev x = rev ''healthz''" by simp
    with x(2) show False by (simp only: rev_is_rev_conv)
  qed
qed

lemma all_routes_ok:
  assumes "HasSuffix (ContextRoot c) ''/''"
  shows "mux_handle_all (all_routes c) [] = Inr (map (\<lambda>(s, r). (the (parsePattern s), r)) (all_routes c))"
proof -
  have "''/healthz'' \<noteq> ContextRoot c @ x" if "x \<in> {[], ''login'', ''callback'', ''logout'', ''ws''}" for x
    using that by (intro healthz_not_under [OF assms]) auto
  from this [of "[]"] this [of "''login''"] this [of "''callback''"] this [of "''logout''"] this [of "''ws''"]
  have "distinct (map fst (all_routes c))" by (auto simp: all_routes_def)
  moreover have "CHR ''/'' \<in> set (ContextRoot c)" using assms by (elim slash_end) simp
  then have "\<forall>s \<in> fst ` set (all_routes c). CHR ''/'' \<in> set s" by (auto simp: all_routes_def)
  ultimately show ?thesis using mux_handle_all_ok [of "all_routes c" "[]"] by simp
qed

text \<open>What each path should reach.\<close>

definition route_spec :: "config \<Rightarrow> string \<Rightarrow> route option" where
  "route_spec c path =
     (if path = ''/healthz'' then Some Healthz
      else if path = ContextRoot c @ ''ws'' then Some Ws
      else if AuthEnabled c \<and> path = ContextRoot c @ ''login'' then Some Login
      else if AuthEnabled c \<and> path = ContextRoot c @ ''callback'' then Some Callback
      else if AuthEnabled c \<and> path = ContextRoot c @ ''logout'' then Some Logout
      else if HasPrefix path (ContextRoot c) then Some Static
      else None)"

text \<open>A context root that is a path, without characters that patterns treat specially.\<close>

definition rooted :: "string \<Rightarrow> bool" where
  "rooted root \<longleftrightarrow> HasPrefix root ''/'' \<and> HasSuffix root ''/'' \<and> set root \<inter> set ''{} %'' = {} \<and> CHR 0x09 \<notin> set root"

lemma no_slash_end: "x \<noteq> [] \<Longrightarrow> last x \<noteq> CHR ''/'' \<Longrightarrow> \<not> HasSuffix (a @ x) ''/''"
  unfolding HasSuffix_iff by (metis last_appendR last_snoc)

lemma exact_match:
  "\<not> HasSuffix s ''/'' \<Longrightarrow> pattern_matches host path \<lparr>p_host = [], p_path = s\<rparr> \<longleftrightarrow> s = path"
  by (simp add: pattern_matches_def)

lemma subtree_match:
  "HasSuffix s ''/'' \<Longrightarrow> pattern_matches host path \<lparr>p_host = [], p_path = s\<rparr> \<longleftrightarrow> HasPrefix path s"
  by (auto simp: pattern_matches_def HasPrefix_def)

lemma mux_best_skip: "(\<forall>(p, r) \<in> set m. \<not> pattern_matches host path p) \<Longrightarrow> mux_best host path best m = best"
  by (induction m arbitrary: best) auto

text \<open>The exact routes of the table, looked up after the subtree of the context root.\<close>

lemma mux_best_exacts:
  assumes "\<forall>(s, r) \<in> set srs. \<not> HasSuffix s ''/''" and "distinct (map fst srs)"
    and "case best of None \<Rightarrow> True | Some (q, _) \<Rightarrow> p_host q = [] \<and> HasSuffix (p_path q) ''/'' \<and> HasPrefix path (p_path q)"
  shows "mux_best host path best (map (\<lambda>(s, r). (\<lparr>p_host = [], p_path = s\<rparr>, r)) srs) =
    (case map_of srs path of None \<Rightarrow> best | Some r \<Rightarrow> Some (\<lparr>p_host = [], p_path = path\<rparr>, r))"
  using assms
proof (induction srs)
  case Nil
  then show ?case by simp
next
  case (Cons sr srs)
  obtain s r where sr: "sr = (s, r)" by (cases sr)
  have s: "\<not> HasSuffix s ''/''" using Cons.prems(1) by (simp add: sr)
  have longer: "length (p_path q) < length s" if "best = Some (q, z)" "s = path" for q z
  proof -
    obtain t where "path = p_path q @ t" and "HasSuffix (p_path q) ''/''"
      using Cons.prems(3) \<open>best = Some (q, z)\<close> by (auto simp: HasPrefix_iff)
    with s \<open>s = path\<close> show ?thesis by (cases t) auto
  qed
  have step: "mux_best host path best (map (\<lambda>(s, r). (\<lparr>p_host = [], p_path = s\<rparr>, r)) (sr # srs)) =
      mux_best host path (if s = path then Some (\<lparr>p_host = [], p_path = s\<rparr>, r) else best)
        (map (\<lambda>(s, r). (\<lparr>p_host = [], p_path = s\<rparr>, r)) srs)"
    using Cons.prems(3) longer by (auto simp: sr exact_match [OF s] more_specific_def split: option.splits)
  show ?case
  proof (cases "s = path")
    case True
    have "\<forall>(p, r) \<in> set (map (\<lambda>(s, r). (\<lparr>p_host = [], p_path = s\<rparr>, r)) srs). \<not> pattern_matches host path p"
      using Cons.prems(1,2) True by (force simp: sr exact_match)
    then show ?thesis unfolding step by (simp add: sr True mux_best_skip)
  next
    case False
    then show ?thesis
      unfolding step using Cons.IH Cons.prems by (simp add: sr)
  qed
qed

text \<open>Start-up as a whole: only three things can go wrong, and the table is always the same.\<close>

definition route_table :: "config \<Rightarrow> mux" where
  "route_table c = map (\<lambda>(s, r). (the (parsePattern s), r)) (all_routes c)"

definition start_auth :: "('cert, 'k) outside \<Rightarrow> config \<Rightarrow> start_error + ('k, 'l) authenticator option" where
  "start_auth out c =
     (if AuthEnabled c
      then (case NewAuthenticator (out_certs out) (out_now out) (out_wellKnown out) (out_jwks out) c of
              Inl e \<Rightarrow> Inl (AuthFatal e)
            | Inr a \<Rightarrow> Inr (Some a))
      else Inr None)"

definition run_config :: "('k, 'l) authenticator option \<Rightarrow> config \<Rightarrow> config" where
  "run_config auth c = (case auth of None \<Rightarrow> c | Some a \<Rightarrow> au_cfg a)"

lemma NewAuthenticator_cfg:
  "NewAuthenticator certs now wk jwks c = Inr a \<Longrightarrow> \<exists>oc. au_cfg a = c\<lparr>OAuthConfig := oc\<rparr>"
  by (auto simp: NewAuthenticator_def fetchWellKnownOIDCConfig_def Let_def
      split: sum.splits option.splits if_splits prod.splits bool.splits)

lemma start_auth_cfg:
  assumes "start_auth out c = Inr auth"
  obtains oc where "run_config auth c = c\<lparr>OAuthConfig := oc\<rparr>"
proof (cases auth)
  case None
  then have "run_config auth c = c\<lparr>OAuthConfig := OAuthConfig c\<rparr>" by (simp add: run_config_def)
  with that show ?thesis .
next
  case (Some a)
  with assms have "NewAuthenticator (out_certs out) (out_now out) (out_wellKnown out) (out_jwks out) c = Inr a"
    by (auto simp: start_auth_def split: if_splits sum.splits)
  from NewAuthenticator_cfg [OF this] Some that show ?thesis by (auto simp: run_config_def)
qed

lemma start_auth_present: "start_auth out c = Inr auth \<Longrightarrow> auth \<noteq> None \<longleftrightarrow> AuthEnabled c"
  by (auto simp: start_auth_def split: if_splits sum.splits)

lemma RegisterOAuthHandlers_eq:
  fixes out :: "('cert, 'k) outside"
  assumes "AuthEnabled c \<longrightarrow> register_auth c m = Inr m'" and "\<not> AuthEnabled c \<longrightarrow> m' = m"
  shows "(RegisterOAuthHandlers out c m :: start_error + ('k, 'l) authenticator option \<times> mux) =
    (case start_auth out c of Inl e \<Rightarrow> Inl e | Inr auth \<Rightarrow> Inr (auth, m'))"
proof -
  have "register_auth (au_cfg a) m = register_auth c m"
    if "NewAuthenticator (out_certs out) (out_now out) (out_wellKnown out) (out_jwks out) c = Inr a" for a :: "('k, 'l) authenticator"
  proof -
    have "ContextRoot (au_cfg a) = ContextRoot c" using NewAuthenticator_cfg [OF that] by auto
    then show ?thesis by (simp only: register_auth_def)
  qed
  with assms show ?thesis
    by (auto simp: RegisterOAuthHandlers_def start_auth_def split: sum.split)
qed

lemma server_main_eq:
  fixes out :: "('cert, 'k) outside"
  assumes "LoadConfig env readFile = Some c"
  shows "(server_main out env readFile :: start_error + ('k, 'l) server) =
    (case start_auth out c of
       Inl e \<Rightarrow> Inl e
     | Inr auth \<Rightarrow>
         if \<not> out_docker out then Inl DockerFatal
         else Inr \<lparr>sv_addr = CHR '':'' # ListenerPort c, sv_mux = route_table c, sv_auth = auth,
                   sv_hub = newHub (run_config auth c)\<rparr>)"
proof -
  have "HasSuffix (ContextRoot c) ''/''"
    using assms by (auto simp: LoadConfig_def loadContextRoot_slash split: option.splits)
  from all_routes_ok [OF this] obtain m1 m2 m3 where m1: "mux_handle (ContextRoot c) Static [] = Inr m1"
    and m2: "AuthEnabled c \<longrightarrow> register_auth c m1 = Inr m2" "\<not> AuthEnabled c \<longrightarrow> m2 = m1"
    and m3: "mux_handle (ContextRoot c @ ''ws'') Ws m2 = Inr m3"
    and m4: "mux_handle ''/healthz'' Healthz m3 = Inr (route_table c)"
    unfolding register_auth_def route_table_def [symmetric] unfolding all_routes_def
    by (cases "AuthEnabled c") (auto split: sum.splits)
  show ?thesis
  proof (cases "start_auth out c :: start_error + ('k, 'l) authenticator option")
    case (Inl e)
    then show ?thesis
      by (simp add: server_main_def assms m1 RegisterOAuthHandlers_eq [OF m2])
  next
    case (Inr auth)
    obtain oc where oc: "run_config auth c = c\<lparr>OAuthConfig := oc\<rparr>" by (rule start_auth_cfg [OF Inr])
    then show ?thesis
      by (simp add: server_main_def assms m1 RegisterOAuthHandlers_eq [OF m2] Inr m3 m4
          RegisterDockerHandlers_def run_config_def [symmetric] Let_def)
  qed
qed

text \<open>The lookup in the table.\<close>

lemma route_table_rooted:
  assumes "HasPrefix (ContextRoot c) ''/''"
  shows "route_table c = map (\<lambda>(s, r). (\<lparr>p_host = [], p_path = s\<rparr>, r)) (all_routes c)"
proof -
  obtain t where t: "ContextRoot c = CHR ''/'' # t" using assms by (auto simp: HasPrefix_iff)
  have "parsePattern s = Some \<lparr>p_host = [], p_path = s\<rparr>" if "(s, r) \<in> set (all_routes c)" for s r
    using that by (auto simp: all_routes_def t parsePattern_rooted split: if_splits)
  then show ?thesis by (auto simp: route_table_def)
qed

lemma route_table_match:
  assumes "rooted (ContextRoot c)"
  shows "mux_match (route_table c) host path = route_spec c path"
proof -
  let ?root = "ContextRoot c" and ?pt = "\<lambda>s. \<lparr>p_host = [], p_path = s\<rparr> :: pattern"
  have slash: "HasSuffix ?root ''/''" "HasPrefix ?root ''/''" using assms by (simp_all add: rooted_def)
  let ?srs = "tl (all_routes c)" and ?best = "if HasPrefix path ?root then Some (?pt ?root, Static) else None"
  have no: "\<not> HasSuffix (?root @ ''login'') ''/''" "\<not> HasSuffix (?root @ ''callback'') ''/''"
    "\<not> HasSuffix (?root @ ''logout'') ''/''" "\<not> HasSuffix (?root @ ''ws'') ''/''" "\<not> HasSuffix ''/healthz'' ''/''"
    by (simp_all add: no_slash_end) (simp add: HasSuffix_def)
  have exact: "\<forall>(s, r) \<in> set ?srs. \<not> HasSuffix s ''/''"
    using no by (cases "AuthEnabled c") (simp_all add: all_routes_def)
  have neq: "''/healthz'' \<noteq> ?root @ ''login''" "''/healthz'' \<noteq> ?root @ ''callback''"
    "''/healthz'' \<noteq> ?root @ ''logout''" "''/healthz'' \<noteq> ?root @ ''ws''"
    by (simp_all add: healthz_not_under [OF slash(1)])
  have dist: "distinct (map fst ?srs)" using neq by (auto simp: all_routes_def)
  have "mux_best host path None (route_table c) =
      mux_best host path ?best (map (\<lambda>(s, r). (?pt s, r)) ?srs)"
    by (simp add: route_table_rooted [OF slash(2)] all_routes_def subtree_match [OF slash(1)])
  also have "\<dots> = (case map_of ?srs path of None \<Rightarrow> ?best | Some r \<Rightarrow> Some (?pt path, r))"
    by (rule mux_best_exacts [OF exact dist]) (simp add: slash(1))
  finally show ?thesis
    using neq by (auto simp: mux_match_def route_spec_def all_routes_def)
qed


text \<open>
  A context root without its leading slash is accepted by \<open>LoadConfig\<close>, but the mux reads its first
  segment as a host name: except for \<open>/healthz\<close>, requests for any other host find nothing.
\<close>

theorem unrooted_root_needs_host:
  assumes "server_main out env readFile = Inr sv" and "loadContextRoot env = h @ CHR ''/'' # t"
    and "CHR ''/'' \<notin> set h" and "h \<noteq> []" and "host \<noteq> h" and "path \<noteq> ''/healthz''"
  shows "mux_match (sv_mux sv) host path = None"
proof -
  obtain c where c: "LoadConfig env readFile = Some c" using assms(1) by (auto simp: server_main_def split: option.splits)
  then have root: "ContextRoot c = h @ CHR ''/'' # t" using assms(2) by (auto simp: LoadConfig_def split: option.splits)
  have mux: "sv_mux sv = route_table c"
    using assms(1) by (auto simp: server_main_eq [OF c] split: sum.splits if_splits)
  have host: "takeWhile (\<lambda>x. x \<noteq> CHR ''/'') (h @ CHR ''/'' # u) = h" for u
    using assms(3) by (subst takeWhile_append2) auto
  have under: "\<not> pattern_matches host path (the (parsePattern (ContextRoot c @ u)))" for u
    using assms(4,5) by (simp add: parsePattern_def root host pattern_matches_def)
  have "\<not> pattern_matches host path (the (parsePattern ''/healthz''))"
    using assms(6) by (simp add: parsePattern_rooted exact_match HasSuffix_def)
  with under under [of "[]"] have "\<forall>(p, r) \<in> set (route_table c). \<not> pattern_matches host path p"
    by (auto simp: route_table_def all_routes_def split: if_splits)
  then show ?thesis by (simp add: mux mux_match_def mux_best_skip)
qed

section \<open>Start-up and readiness\<close>


text \<open>
  C30: the container probe reports what it should: with the environment the server was started with,
  it asks the address the server listens on, and exits with 0 exactly when a first snapshot has
  been fanned out to the clients.
\<close>

theorem healthcheck_reports_readiness:
  assumes "server_main out env readFile = Inr sv" and "hub_reachable (cfg (sv_hub sv)) upgrades valid s"
  shows "healthcheck_main env
      (\<lambda>url. if url = ''http://127.0.0.1'' @ sv_addr sv @ ''/healthz''
             then Some (fst (healthzHandler (Ready (hubst s)))) else None) = 0 \<longleftrightarrow> fanned s \<noteq> []"
proof -
  obtain c where c: "LoadConfig env readFile = Some c" using assms(1) by (auto simp: server_main_def split: option.splits)
  then have "ListenerPort c = getEnv env ''LISTENER_PORT'' defaultListenerPort"
    by (auto simp: LoadConfig_def split: option.splits)
  moreover have "sv_addr sv = CHR '':'' # ListenerPort c"
    using assms(1) by (auto simp: server_main_eq [OF c] split: sum.splits if_splits)
  ultimately have "healthcheck_url env = ''http://127.0.0.1'' @ sv_addr sv @ ''/healthz''"
    by (simp add: healthcheck_url_def getEnv_def defaultListenerPort_def Let_def)
  then show ?thesis
    using hub_ready_iff [OF hub_reachable_inv [OF assms(2)]]
    by (simp add: healthcheck_main_def healthzHandler_def)
qed

section \<open>Sessions\<close>

lemma lookup_key_again:
  assumes "lookup_key cs now answer kid st = (Some k, st')"
  shows "lookup_key cs now' answer' kid st' = (Some k, st')"
proof -
  have "keys st' kid = Some k"
    using assms by (auto simp: lookup_key_def split: option.splits prod.splits if_splits)
  then show ?thesis by (simp add: lookup_key_def)
qed

lemma keyfunc_again:
  "keyfunc cs now answer hdr ks = (Inr k, ks') \<Longrightarrow> keyfunc cs now' answer' hdr ks' = (Inr k, ks')"
  by (auto simp: keyfunc_def lookup_key_again split: if_splits option.splits prod.splits)

lemma validateRawToken_again:
  assumes "validateRawToken lib cs oc now answer raw ks = (Inr cl, ks')"
  shows "validateRawToken lib cs oc now' answer' raw ks' = (Inr cl, ks')"
proof -
  obtain hdr k where h: "jwt_header_of lib raw = Some hdr" and k: "keyfunc cs now answer hdr ks = (Inr k, ks')"
    and v: "jwt_verify lib raw k = Some (cl, True)" "check_claims lib oc cl = Inr cl"
    using assms by (auto simp: validateRawToken_def jwt_parse_def check_claims_iff
        split: option.splits prod.splits sum.splits if_splits)
  show ?thesis by (simp add: validateRawToken_def jwt_parse_def h keyfunc_again [OF k] v)
qed


section \<open>Witnesses\<close>

text \<open>A server under \<open>/viz/\<close> with authentication, a provider with one key, and a running Docker daemon.\<close>

definition demo_env :: "string \<Rightarrow> string" where
  "demo_env k = (if k = ''CONTEXT_ROOT'' then ''/viz'' else if k = ''ENABLE_AUTHN'' then ''true'' else [])"

definition demo_outside :: "(nat, nat) outside" where
  "demo_outside =
     \<lparr>out_certs = demo_certs, out_now = 7, out_wellKnown = Some demo_discovery, out_jwks = (\<lambda>_. Some demo_jwks),
      out_docker = True\<rparr>"

lemma demo_root: "loadContextRoot demo_env = ''/viz/''"
  by (simp add: loadContextRoot_def getEnv_def demo_env_def HasSuffix_def)

lemma demo_rooted: "rooted (loadContextRoot demo_env)"
  by (simp add: demo_root rooted_def HasPrefix_def HasSuffix_def)

lemma demo_config:
  obtains c where "LoadConfig demo_env (\<lambda>_. None) = Some c" "AuthEnabled c" "ContextRoot c = ''/viz/''"
    "ListenerPort c = ''8080''"
proof -
  obtain c where c: "LoadConfig demo_env (\<lambda>_. None) = Some c"
    by (simp add: LoadConfig_def loadClientSecret_def demo_env_def)
  then have "AuthEnabled c" "ContextRoot c = ''/viz/''" "ListenerPort c = ''8080''"
    by (auto simp: LoadConfig_def demo_root demo_env_def getEnv_def defaultListenerPort_def split: option.splits)
  with c that show ?thesis by blast
qed

lemma demo_auth:
  obtains a :: "(nat, nat) authenticator" where
    "NewAuthenticator (out_certs demo_outside) (out_now demo_outside) (out_wellKnown demo_outside) (out_jwks demo_outside) c = Inr a"
    "au_cfg a = c\<lparr>OAuthConfig := apply_discovery demo_discovery (OAuthConfig c)\<rparr>"
  by (simp add: demo_outside_def NewAuthenticator_def fetchWellKnownOIDCConfig_def demo_discovery_def refresh_def
      install_keys_def record_attempt_def newKeyStore_def demo_jwks_def demo_certs_def usable_key_def Let_def)

text \<open>A browser coming back from the provider, and a library that accepts the token \<open>tok\<close> for the demo key.\<close>

definition demo_deps :: "nat auth_deps" where
  "demo_deps =
     \<lparr>dep_newLimiter = 0, dep_allow = (\<lambda>_ l. (True, l)), dep_authCodeURL = (\<lambda>_ s n. s @ n),
      dep_exchange = (\<lambda>_ _. Some (Some ''tok'')), dep_rand1 = demo_rand 0, dep_rand2 = demo_rand 0\<rparr>"

definition demo_lib :: "nat jwt_lib" where
  "demo_lib =
     \<lparr>jwt_header_of = (\<lambda>_. Some \<lparr>hdr_rsa = True, hdr_kid = Some ''k''\<rparr>),
      jwt_verify = (\<lambda>_ _. Some ([''nonce'' \<mapsto> CString ''n''], True)),
      GetIssuer = (\<lambda>_. Some ''https://idp''), GetAudience = (\<lambda>_. Some [[]])\<rparr>"

definition demo_authenticator :: "(nat, nat) authenticator" where
  "demo_authenticator =
     \<lparr>au_cfg = example_config, au_oauthConfig = setupOAuthConfig (OAuthConfig example_config),
      au_keys = Some \<lparr>keys = [''k'' \<mapsto> 5], lastRefresh = 0\<rparr>, au_limiters = Map.empty\<rparr>"

definition demo_return :: request where
  "demo_return =
     \<lparr>RemoteAddr = ''10.0.0.1:1'', Header = (\<lambda>_. []), Cookie = [''state'' \<mapsto> ''s'', ''nonce'' \<mapsto> ''n''],
      Query = (\<lambda>_. ''s'')\<rparr>"


lemma demo_server:
  obtains sv :: "(nat, nat) server" where "server_main demo_outside demo_env (\<lambda>_. None) = Inr sv"
    "AuthEnabled (cfg (sv_hub sv))"
proof -
  obtain c where c: "LoadConfig demo_env (\<lambda>_. None) = Some c" "AuthEnabled c" by (rule demo_config)
  obtain a :: "(nat, nat) authenticator" where
    a: "NewAuthenticator (out_certs demo_outside) (out_now demo_outside) (out_wellKnown demo_outside) (out_jwks demo_outside) c = Inr a"
    "au_cfg a = c\<lparr>OAuthConfig := apply_discovery demo_discovery (OAuthConfig c)\<rparr>"
    by (rule demo_auth)
  have "start_auth demo_outside c = Inr (Some a)" using a(1) c(2) by (simp add: start_auth_def)
  with a(2) c(2) that show ?thesis
    by (simp add: server_main_eq [OF c(1)] demo_outside_def run_config_def newHub_def)
qed


theorem healthcheck_reports_readiness_witness:
  "\<exists>(sv :: (nat, nat) server) s. hub_reachable (cfg (sv_hub sv)) (\<lambda>_. True) (\<lambda>_. True) s \<and>
     healthcheck_main demo_env
       (\<lambda>url. if url = ''http://127.0.0.1'' @ sv_addr sv @ ''/healthz''
              then Some (fst (healthzHandler (Ready (hubst s)))) else None) \<noteq> 0"
proof -
  obtain sv :: "(nat, nat) server" where sv: "server_main demo_outside demo_env (\<lambda>_. None) = Inr sv" by (rule demo_server)
  have "hub_reachable (cfg (sv_hub sv)) (\<lambda>_. True) (\<lambda>_. True) (init_sys (cfg (sv_hub sv)))" by (rule reachable_init)
  moreover have "fanned (init_sys (cfg (sv_hub sv))) = []" by (simp add: init_sys_def)
  ultimately show ?thesis using healthcheck_reports_readiness [OF sv] by blast
qed

lemma serve_auth_total:
  "rt \<in> {Login, Callback, Logout} \<Longrightarrow> \<exists>resp a'. serve_auth deps lib cs now answer rt r a = Some (resp, a')"
  by (auto simp: serve_auth_def Let_def intro: prod.exhaust)


end
