(* ===== verification/OAuthLimits.thy ===== *)
theory OAuthLimits
  imports OAuthProps
begin

text \<open>
  The rate limiters over time: requests and rounds of \<open>cleanupLimiters\<close> as a sequence of events.  The
  limiter itself is \<open>golang.org/x/time/rate\<close>; what the program relies on is its documented token
  bucket: it starts full, and once it has been left alone for the time it takes to refill, it is full
  again and behaves like a new one.
\<close>

section \<open>Runs\<close>

text \<open>The interval and the burst of \<open>rate.NewLimiter\<close> in \<open>authLimiter\<close>, and the time to refill.\<close>

definition authInterval :: int where
  "authInterval = 60 * 1000000000 div 5"

definition authBurst :: int where
  "authBurst = 5"

definition authRefill :: int where
  "authRefill = authBurst * authInterval"

datatype lim_event = LimRequest (ev_time: int) request | LimCleanup (ev_time: int) "string list"

fun is_request :: "lim_event \<Rightarrow> bool" where
  "is_request (LimRequest now r) = True"
| "is_request (LimCleanup now order) = False"

text \<open>Which of the requests to the limited routes are let through.\<close>

fun lim_run :: "'l \<Rightarrow> (int \<Rightarrow> 'l \<Rightarrow> bool \<times> 'l) \<Rightarrow> config \<Rightarrow> lim_event list \<Rightarrow> 'l limiters \<Rightarrow> bool list" where
  "lim_run newLimiter allow c [] ls = []"
| "lim_run newLimiter allow c (LimRequest now r # es) ls =
     (case rate_limited newLimiter allow c now r (\<lambda>_. ()) ls of
        (res, ls') \<Rightarrow> (res \<noteq> None) # lim_run newLimiter allow c es ls')"
| "lim_run newLimiter allow c (LimCleanup now order # es) ls =
     lim_run newLimiter allow c es (cleanupLimiters now order ls)"

section \<open>The contract of the limiter\<close>

text \<open>The limiters that come from a new one by calls of \<open>Allow\<close>, the last of them not after \<open>t\<close>.\<close>

inductive used_by :: "'l \<Rightarrow> (int \<Rightarrow> 'l \<Rightarrow> bool \<times> 'l) \<Rightarrow> int \<Rightarrow> 'l \<Rightarrow> bool" for newLimiter allow where
  used_new: "used_by newLimiter allow t newLimiter"
| used_allow: "used_by newLimiter allow t l \<Longrightarrow> t \<le> now \<Longrightarrow> used_by newLimiter allow now (snd (allow now l))"

definition refills :: "'l \<Rightarrow> (int \<Rightarrow> 'l \<Rightarrow> bool \<times> 'l) \<Rightarrow> int \<Rightarrow> bool" where
  "refills newLimiter allow d \<longleftrightarrow>
     (\<forall>t l now. used_by newLimiter allow t l \<and> t + d \<le> now \<longrightarrow> allow now l = allow now newLimiter)"

section \<open>Cleaning up is not observable\<close>

text \<open>Two tables that differ only in entries that one has dropped and that are stale by time \<open>t\<close>.\<close>

definition stale_apart ::
  "'l \<Rightarrow> (int \<Rightarrow> 'l \<Rightarrow> bool \<times> 'l) \<Rightarrow> int \<Rightarrow> 'l limiters \<Rightarrow> 'l limiters \<Rightarrow> bool" where
  "stale_apart newLimiter allow t ls ls' \<longleftrightarrow>
     (\<forall>ip. ls ip = ls' ip \<or> ls ip = None \<and> (\<exists>e. ls' ip = Some e \<and> limiterTTL < t - lastSeen e)) \<and>
     (\<forall>ip e. ls' ip = Some e \<longrightarrow> lastSeen e \<le> t \<and> used_by newLimiter allow (lastSeen e) (limiter e))"

lemma stale_apart_later: "stale_apart newLimiter allow t ls ls' \<Longrightarrow> t \<le> now \<Longrightarrow> stale_apart newLimiter allow now ls ls'"
  unfolding stale_apart_def by (meson diff_right_mono order_less_le_trans order_trans)

lemma stale_apart_cleanup:
  assumes "stale_apart newLimiter allow now ls ls'"
  shows "stale_apart newLimiter allow now (cleanupLimiters now order ls) ls'"
proof -
  have "cleanupLimiters now order ls ip = ls' ip \<or>
      cleanupLimiters now order ls ip = None \<and> (\<exists>e. ls' ip = Some e \<and> limiterTTL < now - lastSeen e)" for ip
    using assms unfolding stale_apart_def cleanupLimiters_eq by metis
  with assms show ?thesis unfolding stale_apart_def by blast
qed

lemma rate_limited_eq:
  "rate_limited newLimiter allow c now r handler ls =
     (let ip = clientIP r (TrustedProxies c);
          l = (case ls ip of None \<Rightarrow> newLimiter | Some e \<Rightarrow> limiter e)
      in (if fst (allow now l) then Some (handler r) else None,
          ls(ip \<mapsto> \<lparr>limiter = snd (allow now l), lastSeen = now\<rparr>)))"
  by (simp add: rate_limited_def authLimiter_def Let_def split: prod.split)

lemma stale_apart_request:
  assumes "refills newLimiter allow d" and "d \<le> limiterTTL" and "stale_apart newLimiter allow now ls ls'"
    and "rate_limited newLimiter allow c now r handler ls = (res, ms)"
    and "rate_limited newLimiter allow c now r handler ls' = (res', ms')"
  shows "res = res' \<and> stale_apart newLimiter allow now ms ms'"
proof -
  define ip where "ip = clientIP r (TrustedProxies c)"
  define l where "l = (case ls ip of None \<Rightarrow> newLimiter | Some e \<Rightarrow> limiter e)"
  define l' where "l' = (case ls' ip of None \<Rightarrow> newLimiter | Some e \<Rightarrow> limiter e)"
  have run: "res = (if fst (allow now l) then Some (handler r) else None)"
    "ms = ls(ip \<mapsto> \<lparr>limiter = snd (allow now l), lastSeen = now\<rparr>)"
    "res' = (if fst (allow now l') then Some (handler r) else None)"
    "ms' = ls'(ip \<mapsto> \<lparr>limiter = snd (allow now l'), lastSeen = now\<rparr>)"
    using assms(4,5) by (simp_all add: rate_limited_eq Let_def ip_def l_def l'_def)
  have used: "\<exists>t \<le> now. used_by newLimiter allow t l'"
  proof (cases "ls' ip")
    case None
    then show ?thesis using used_new [of newLimiter allow now] by (auto simp: l'_def)
  next
    case (Some e)
    with assms(3) have "lastSeen e \<le> now" "used_by newLimiter allow (lastSeen e) (limiter e)"
      unfolding stale_apart_def by blast+
    with Some show ?thesis by (auto simp: l'_def)
  qed
  have "allow now l = allow now l'"
  proof (cases "ls ip = ls' ip")
    case False
    then obtain e where e: "ls ip = None" "ls' ip = Some e" "limiterTTL < now - lastSeen e"
      "used_by newLimiter allow (lastSeen e) (limiter e)"
      using assms(3) unfolding stale_apart_def by metis
    then have "lastSeen e + d \<le> now" using assms(2) by simp
    with assms(1) e show ?thesis by (auto simp: refills_def l_def l'_def)
  qed (simp add: l_def l'_def)
  moreover have "used_by newLimiter allow now (snd (allow now l'))" using used used_allow by metis
  ultimately show ?thesis using assms(3) by (auto simp: run stale_apart_def)
qed

lemma lim_run_apart:
  assumes "refills newLimiter allow d" and "d \<le> limiterTTL"
  shows "stale_apart newLimiter allow t ls ls' \<Longrightarrow> sorted (t # map ev_time es) \<Longrightarrow>
    lim_run newLimiter allow c es ls = lim_run newLimiter allow c (filter is_request es) ls'"
proof (induction es arbitrary: t ls ls')
  case Nil
  then show ?case by simp
next
  case (Cons ev es)
  then have t: "t \<le> ev_time ev" "sorted (ev_time ev # map ev_time es)" by simp_all
  note rel = stale_apart_later [OF Cons.prems(1) t(1)]
  show ?case
  proof (cases ev)
    case (LimRequest now r)
    obtain res ms res' ms' where run: "rate_limited newLimiter allow c now r (\<lambda>_. ()) ls = (res, ms)"
      "rate_limited newLimiter allow c now r (\<lambda>_. ()) ls' = (res', ms')" by fastforce
    have "stale_apart newLimiter allow now ls ls'" using rel LimRequest by simp
    from stale_apart_request [OF assms this run] have "res = res'" "stale_apart newLimiter allow now ms ms'" by blast+
    with Cons.IH [OF this(2)] t(2) run LimRequest show ?thesis by simp
  next
    case (LimCleanup now order)
    with stale_apart_cleanup [of newLimiter allow now ls ls'] rel
    have "stale_apart newLimiter allow now (cleanupLimiters now order ls) ls'" by simp
    with Cons.IH [OF this] t(2) LimCleanup show ?thesis by simp
  qed
qed

text \<open>
  C27: dropping idle limiters cannot be observed: over any sequence of requests and cleanup rounds, in
  any iteration order, exactly the same requests are let through as if no limiter were ever dropped,
  because the ten minutes of idleness are longer than the minute in which a limiter refills.  So a
  client cannot win attempts by waiting for its limiter to be dropped.
\<close>

theorem cleanup_unobservable:
  assumes "refills newLimiter allow authRefill" and "sorted (map ev_time es)"
  shows "lim_run newLimiter allow c es Map.empty = lim_run newLimiter allow c (filter is_request es) Map.empty"
proof (cases es)
  case (Cons ev es')
  have "stale_apart newLimiter allow (ev_time ev) Map.empty Map.empty" by (simp add: stale_apart_def)
  moreover have "authRefill \<le> limiterTTL"
    by (simp add: authRefill_def authBurst_def authInterval_def limiterTTL_def)
  ultimately show ?thesis
    using assms(2) Cons by (intro lim_run_apart [OF assms(1), of "ev_time ev"]) auto
qed simp

section \<open>A token bucket\<close>

text \<open>
  A limiter that meets the contract: \<open>None\<close> is full, \<open>Some x\<close> is full again at time \<open>x\<close>.
\<close>

definition bucket :: "int \<Rightarrow> int option \<Rightarrow> bool \<times> int option" where
  "bucket now l =
     (let full = (case l of None \<Rightarrow> now | Some x \<Rightarrow> max now x)
      in if full + authInterval - now \<le> authRefill then (True, Some (full + authInterval)) else (False, l))"

lemma bucket_used: "used_by None bucket t l \<Longrightarrow> l = None \<or> (\<exists>x. l = Some x \<and> x \<le> t + authRefill)"
  by (induction rule: used_by.induct) (auto simp: bucket_def Let_def split: option.splits)

lemma bucket_refills: "refills None bucket authRefill"
  unfolding refills_def
proof (intro allI impI)
  fix t l now
  assume a: "used_by None bucket t l \<and> t + authRefill \<le> now"
  with bucket_used [of t l] show "bucket now l = bucket now None"
    by (auto simp: bucket_def Let_def max_def authRefill_def authBurst_def authInterval_def)
qed

definition minute :: int where
  "minute = 60 * 1000000000"

text \<open>Six requests at once, a cleanup eleven minutes later, and another request.\<close>

definition demo_events :: "lim_event list" where
  "demo_events =
     replicate 6 (LimRequest 0 demo_back) @ [LimCleanup (11 * minute) [''10.0.0.1''], LimRequest (11 * minute) demo_back]"

theorem cleanup_unobservable_witness:
  "lim_run None bucket example_config demo_events Map.empty =
     lim_run None bucket example_config (replicate 6 (LimRequest 0 demo_back) @ [LimRequest (11 * minute) demo_back]) Map.empty"
proof -
  have "sorted (map ev_time demo_events)" by (simp add: demo_events_def minute_def numeral_eq_Suc)
  moreover have "filter is_request demo_events = replicate 6 (LimRequest 0 demo_back) @ [LimRequest (11 * minute) demo_back]"
    by (simp add: demo_events_def numeral_eq_Suc)
  ultimately show ?thesis using cleanup_unobservable [OF bucket_refills, of demo_events example_config] by simp
qed

end
