(* ===== verification/Program.thy ===== *)
theory Program
  imports System ServerProps OAuthLimits
begin

text \<open>
  The whole program: the process of \<open>System\<close> and the authentication state, side by side.  The hub
  relies on authentication only through its \<open>TokenValidator\<close>, so this is the interface: the locale
  \<open>token_validator\<close> states what the hub needs of it (it returns, and a positive verdict has a proof),
  and everything about the program is proved once under that contract.  The authenticator of
  \<open>internal/oauth\<close>, with its logins, key refreshes and limiter cleanups going on in between, is then
  shown to meet it.
\<close>

section \<open>The program\<close>

text \<open>\<open>pg_verdict\<close> is the verdict of the validator on the request of each connection, once it is given.\<close>

record ('o, 'a) program =
  pg_now :: int
  pg_proc :: "'o process"
  pg_auth :: 'a
  pg_verdict :: "client \<Rightarrow> bool option"

definition pg_hub :: "('o, 'a) program \<Rightarrow> sys" where
  "pg_hub w = pr_hub (pg_proc w)"

definition set_hub :: "sys \<Rightarrow> ('o, 'a) program \<Rightarrow> ('o, 'a) program" where
  "set_hub s w = w\<lparr>pg_proc := (pg_proc w)\<lparr>pr_hub := s\<rparr>\<rparr>"

definition init_program :: "config \<Rightarrow> int \<Rightarrow> 'a \<Rightarrow> ('o, 'a) program" where
  "init_program c now a = \<lparr>pg_now = now, pg_proc = init_process c, pg_auth = a, pg_verdict = (\<lambda>_. None)\<rparr>"

text \<open>
  Steps of the authentication state other than a validation are \<open>other\<close>.  With authentication enabled
  a connection leaves its token check only through the validator (\<open>prog_admit\<close>).
\<close>

definition admit :: "client \<Rightarrow> bool \<Rightarrow> sys \<Rightarrow> sys" where
  "admit k v s = (if v then set_hpc k HRegister s else refuse k Unauthorized s)"

inductive program_step ::
  "'o api_view \<Rightarrow> (goval \<Rightarrow> string option) \<Rightarrow> config \<Rightarrow> (client \<Rightarrow> bool) \<Rightarrow> (client \<Rightarrow> 'r)
     \<Rightarrow> (int \<Rightarrow> 'r \<Rightarrow> 'a \<Rightarrow> (bool \<times> 'a) go) \<Rightarrow> (int \<Rightarrow> 'a \<Rightarrow> 'a \<Rightarrow> bool)
     \<Rightarrow> ('o, 'a) program \<Rightarrow> ('o, 'a) program \<Rightarrow> bool"
  for api marshal c upgrades req validate other where
  prog_time: "pg_now w \<le> t \<Longrightarrow> program_step api marshal c upgrades req validate other w (w\<lparr>pg_now := t\<rparr>)"
| prog_auth: "other (pg_now w) (pg_auth w) a \<Longrightarrow>
     program_step api marshal c upgrades req validate other w (w\<lparr>pg_auth := a\<rparr>)"
| prog_admit: "AuthEnabled c \<Longrightarrow> panicked (pg_hub w) = None \<Longrightarrow> hpc (pg_hub w) k = HAuth \<Longrightarrow>
     validate (pg_now w) (req k) (pg_auth w) = Inr (v, a) \<Longrightarrow>
     program_step api marshal c upgrades req validate other w
       ((set_hub (admit k v (pg_hub w)) w)\<lparr>pg_auth := a, pg_verdict := (pg_verdict w)(k := Some v)\<rparr>)"
| prog_admit_panic: "AuthEnabled c \<Longrightarrow> panicked (pg_hub w) = None \<Longrightarrow> hpc (pg_hub w) k = HAuth \<Longrightarrow>
     validate (pg_now w) (req k) (pg_auth w) = Inl p \<Longrightarrow>
     program_step api marshal c upgrades req validate other w
       (set_hub ((pg_hub w)\<lparr>panicked := Some p\<rparr>) w)"
| prog_proc: "process_step api marshal c upgrades (\<lambda>k. pg_verdict w k = Some True) (pg_proc w) p \<Longrightarrow>
     (\<And>k. AuthEnabled c \<Longrightarrow> hpc (pg_hub w) k = HAuth \<Longrightarrow> hpc (pr_hub p) k = HAuth) \<Longrightarrow>
     program_step api marshal c upgrades req validate other w (w\<lparr>pg_proc := p\<rparr>)"

section \<open>Upgraded connections\<close>

text \<open>Nothing happens on a connection whose upgrade was refused.\<close>

definition upgrade_ok :: "(client \<Rightarrow> bool) \<Rightarrow> sys \<Rightarrow> bool" where
  "upgrade_ok upgrades s \<longleftrightarrow>
     (\<forall>k. hpc s k \<in> {HAuth, HRegister, HReading, HUnregister} \<or> wpc s k \<noteq> WNotStarted \<or> written s k \<noteq> [] \<longrightarrow>
        upgrades k)"

lemma upgrade_ok_same:
  "upgrade_ok upgrades s \<Longrightarrow> hpc t = hpc s \<Longrightarrow> wpc t = wpc s \<Longrightarrow> written t = written s \<Longrightarrow> upgrade_ok upgrades t"
  by (simp add: upgrade_ok_def)

lemma upgrade_ok_set_hpc:
  assumes "upgrade_ok upgrades s" and "p \<in> {HStart, HUpgrade, HDone} \<or> upgrades k"
  shows "upgrade_ok upgrades (set_hpc k p s)" and "upgrade_ok upgrades (refuse k r s)"
  using assms by (auto simp: upgrade_ok_def set_hpc_def refuse_def)

lemma upgrade_okD:
  "upgrade_ok upgrades s \<Longrightarrow> hpc s k \<in> {HAuth, HRegister, HReading, HUnregister} \<Longrightarrow> upgrades k"
  "upgrade_ok upgrades s \<Longrightarrow> wpc s k = WRunning \<Longrightarrow> upgrades k"
  "upgrade_ok upgrades s \<Longrightarrow> written s k \<noteq> [] \<Longrightarrow> upgrades k"
  by (auto simp: upgrade_ok_def)

lemma bcast_keeps_pcs: "bcast_step s t \<Longrightarrow> hpc t = hpc s \<and> wpc t = wpc s"
  by (erule bcast_step.cases)
    (auto simp: bcast_lock_def bcast_drop_def bcast_first_def bcast_last_def crash_def go_map_def split: sum.split)

lemma bcast_upgrade: "bcast_step s t \<Longrightarrow> upgrade_ok upgrades s \<Longrightarrow> upgrade_ok upgrades t"
  using upgrade_ok_same [of upgrades s t] bcast_keeps_pcs [of s t] bcast_frames [of s t] by blast

lemma pump_upgrade: "pump_step s t \<Longrightarrow> upgrade_ok upgrades s \<Longrightarrow> upgrade_ok upgrades t"
  by (erule pump_step.cases)
    (auto simp: upgrade_ok_def pump_take_def pump_stop_def)

lemma conn_upgrade_ok:
  assumes "conn_step upgrades valid s t" and ok: "upgrade_ok upgrades s"
  shows "upgrade_ok upgrades t"
  using assms(1)
proof cases
  case (conn_register k)
  have "upgrades k" using upgrade_okD(1) [OF ok] conn_register(1) by simp
  moreover have "(\<exists>h. t = set_hpc k HReading (s\<lparr>hubst := h, wpc := (wpc s)(k := WRunning)\<rparr>)) \<or> t = refuse k CapRace s"
    using conn_register(3) by (auto simp: do_register_def map_option_case split: option.splits if_splits)
  ultimately show ?thesis using ok by (auto simp: upgrade_ok_def set_hpc_def refuse_def split: if_splits)
next
  case (conn_unregister k)
  have "upgrades k" using upgrade_okD(1) [OF ok] conn_unregister(2) by simp
  with conn_unregister(1) ok show ?thesis
    by (auto simp: do_unregister_def upgrade_ok_def set_hpc_def crash_def go_map_def split: sum.split)
qed (use ok upgrade_okD(1) [OF ok] in \<open>auto intro: upgrade_ok_set_hpc upgrade_ok_same\<close>)

lemma process_upgrade:
  "process_step api marshal c upgrades valid p q \<Longrightarrow> upgrade_ok upgrades (pr_hub p) \<Longrightarrow> upgrade_ok upgrades (pr_hub q)"
  by (erule process_step.cases) (auto intro: bcast_upgrade conn_upgrade_ok pump_upgrade upgrade_ok_same)

section \<open>The interface to authentication\<close>

text \<open>A connection at its token check has nothing yet, so the verdict on it can be anything.\<close>

lemma hub_inv_verdict:
  assumes "hub_inv c valid s" and "hpc s k = HAuth"
  shows "hub_inv c (\<lambda>j. if j = k then v else valid j) s"
proof -
  have "conn_ok (\<lambda>j. if j = k then v else valid j) s j" for j
    using hub_invD(3) [OF assms(1), of j] assms(2)
    by (auto simp: conn_ok_def client_ok_def new_chan_def)
  then show ?thesis using assms(1) by (simp add: hub_inv_def)
qed

lemma admit_inv:
  assumes "hub_inv c valid s" and "hpc s k = HAuth" and "AuthEnabled c"
  shows "hub_inv c (\<lambda>j. if j = k then v else valid j) (admit k v s)"
proof -
  let ?valid = "\<lambda>j. if j = k then v else valid j"
  have inv: "hub_inv c ?valid s" by (rule hub_inv_verdict [OF assms(1,2)])
  have "cfg (hubst s) = c" using hub_invD(2) [OF assms(1)] by (simp add: shape_ok_def)
  then have "conn_step (\<lambda>_. True) ?valid s (admit k v s)"
    using assms(2,3) by (auto simp: admit_def intro: conn_authorized conn_unauthorized)
  with hub_move_inv [OF inv] show ?thesis by blast
qed

lemma admit_upgrade: "upgrade_ok upgrades s \<Longrightarrow> hpc s k = HAuth \<Longrightarrow> upgrade_ok upgrades (admit k v s)"
  using upgrade_okD(1) [of upgrades s k] by (simp add: admit_def upgrade_ok_set_hpc)

lemma admit_published: "published (admit k v s) = published s"
  by (simp add: admit_def set_hpc_def refuse_def)

lemma process_inv_hub:
  "process_inv api marshal c valid p \<Longrightarrow> hub_inv c valid' s \<Longrightarrow> published s = published (pr_hub p) \<Longrightarrow>
   process_inv api marshal c valid' (p\<lparr>pr_hub := s\<rparr>)"
  by (simp add: process_inv_def)

definition program_inv ::
  "'o api_view \<Rightarrow> (goval \<Rightarrow> string option) \<Rightarrow> config \<Rightarrow> (client \<Rightarrow> bool) \<Rightarrow> (client \<Rightarrow> 'r)
     \<Rightarrow> (int \<Rightarrow> 'a \<Rightarrow> bool) \<Rightarrow> (int \<Rightarrow> 'r \<Rightarrow> bool) \<Rightarrow> ('o, 'a) program \<Rightarrow> bool" where
  "program_inv api marshal c upgrades req ok_auth proven w \<longleftrightarrow>
     process_inv api marshal c (\<lambda>k. pg_verdict w k = Some True) (pg_proc w) \<and> upgrade_ok upgrades (pg_hub w) \<and>
     (AuthEnabled c \<longrightarrow> ok_auth (pg_now w) (pg_auth w)) \<and>
     (\<forall>k. pg_verdict w k = Some True \<longrightarrow> proven (pg_now w) (req k))"

text \<open>
  What the hub relies on: \<open>validate\<close> is the token validator, \<open>other\<close> everything else that happens to the
  authentication state, \<open>ok_auth\<close> its invariant, and \<open>proven\<close> what a positive verdict stands for.
\<close>

locale token_validator =
  fixes validate :: "int \<Rightarrow> 'r \<Rightarrow> 'a \<Rightarrow> (bool \<times> 'a) go"
    and other :: "int \<Rightarrow> 'a \<Rightarrow> 'a \<Rightarrow> bool"
    and ok_auth :: "int \<Rightarrow> 'a \<Rightarrow> bool"
    and proven :: "int \<Rightarrow> 'r \<Rightarrow> bool"
  assumes validate_ok: "ok_auth now a \<Longrightarrow>
      \<exists>v a'. validate now r a = Inr (v, a') \<and> ok_auth now a' \<and> (v \<longrightarrow> proven now r)"
    and other_ok: "ok_auth now a \<Longrightarrow> other now a a' \<Longrightarrow> ok_auth now a'"
    and ok_later: "ok_auth now a \<Longrightarrow> now \<le> later \<Longrightarrow> ok_auth later a"
    and proven_later: "proven now r \<Longrightarrow> now \<le> later \<Longrightarrow> proven later r"
begin

lemma admit_step_inv:
  assumes inv: "program_inv api marshal c upgrades req ok_auth proven w" and auth: "AuthEnabled c"
    and pc: "hpc (pg_hub w) k = HAuth" and run: "validate (pg_now w) (req k) (pg_auth w) = Inr (v, a)"
  shows "program_inv api marshal c upgrades req ok_auth proven
    ((set_hub (admit k v (pg_hub w)) w)\<lparr>pg_auth := a, pg_verdict := (pg_verdict w)(k := Some v)\<rparr>)"
proof -
  have hub: "hub_inv c (\<lambda>j. pg_verdict w j = Some True) (pg_hub w)"
    using inv by (simp add: program_inv_def process_inv_def pg_hub_def)
  have valid: "(\<lambda>j. ((pg_verdict w)(k := Some v)) j = Some True) =
      (\<lambda>j. if j = k then v else pg_verdict w j = Some True)" by (simp add: fun_eq_iff)
  have proc: "process_inv api marshal c (\<lambda>j. ((pg_verdict w)(k := Some v)) j = Some True)
      ((pg_proc w)\<lparr>pr_hub := admit k v (pg_hub w)\<rparr>)"
    unfolding valid
    using process_inv_hub [OF _ admit_inv [OF hub pc auth], of api marshal "\<lambda>j. pg_verdict w j = Some True" "pg_proc w" v] inv
    by (simp add: program_inv_def admit_published pg_hub_def)
  have up: "upgrade_ok upgrades (admit k v (pg_hub w))"
    using inv pc by (intro admit_upgrade) (simp_all add: program_inv_def)
  have "ok_auth (pg_now w) (pg_auth w)" using inv auth by (simp add: program_inv_def)
  from validate_ok [OF this, of "req k"] run have new: "ok_auth (pg_now w) a" "v \<longrightarrow> proven (pg_now w) (req k)"
    by auto
  show ?thesis
    using proc up new inv by (auto simp: program_inv_def set_hub_def pg_hub_def)
qed

lemma program_step_inv:
  assumes api: "views_ok api" and inv: "program_inv api marshal c upgrades req ok_auth proven w"
    and step: "program_step api marshal c upgrades req validate other w w'"
  shows "program_inv api marshal c upgrades req ok_auth proven w'"
  using step
proof cases
  case (prog_time t)
  with inv show ?thesis by (auto simp: program_inv_def pg_hub_def intro: ok_later proven_later)
next
  case (prog_auth a)
  with inv show ?thesis by (auto simp: program_inv_def pg_hub_def intro: other_ok)
next
  case (prog_admit k v a)
  with admit_step_inv [OF inv] show ?thesis by blast
next
  case (prog_admit_panic k p)
  have "ok_auth (pg_now w) (pg_auth w)" using inv prog_admit_panic(2) by (simp add: program_inv_def)
  with validate_ok [OF this, of "req k"] prog_admit_panic(5) show ?thesis by auto
next
  case (prog_proc p)
  with inv process_step_inv [OF api _ prog_proc(2)] process_upgrade [OF prog_proc(2)] show ?thesis
    by (simp add: program_inv_def pg_hub_def)
qed

end

text \<open>So the program is a state machine with an invariant, for every validator that meets the contract.\<close>

sublocale token_validator \<subseteq> prog: invariant_system
  "\<lambda>w. \<exists>now a. w = init_program c now a \<and> (AuthEnabled c \<longrightarrow> ok_auth now a)"
  "\<lambda>w w'. views_ok api \<and> program_step api marshal c upgrades req validate other w w'"
  "program_inv api marshal c upgrades req ok_auth proven"
  for api marshal c upgrades req
proof
  show "program_inv api marshal c upgrades req ok_auth proven w"
    if "\<exists>now a. w = init_program c now a \<and> (AuthEnabled c \<longrightarrow> ok_auth now a)" for w
    using that process_init_inv [of api marshal c]
    by (auto simp: program_inv_def init_program_def pg_hub_def upgrade_ok_def)
      (simp_all add: init_process_def init_sys_def)
qed (use program_step_inv in blast)

section \<open>The authenticator behind the interface\<close>

text \<open>
  \<open>provider t\<close> is what the provider's JWKS endpoint answers at time \<open>t\<close>.  A validation is one step;
  the critical sections of the refreshes of other goroutines (\<open>refreshLoop\<close> and other lookups) are
  steps of their own, and what they install may have been requested earlier.
\<close>

definition oauth_validate ::
  "'k jwt_lib \<Rightarrow> ('cert, 'k) certs \<Rightarrow> (int \<Rightarrow> jwk list option) \<Rightarrow> int \<Rightarrow> request \<Rightarrow> ('k, 'l) authenticator option
     \<Rightarrow> (bool \<times> ('k, 'l) authenticator option) go" where
  "oauth_validate lib cs provider now r auth =
     (case auth of
        None \<Rightarrow> Inl NilDereference
      | Some a \<Rightarrow>
          (case ValidateToken lib cs (OAuthConfig (au_cfg a)) now (provider now) r (au_keys a) of
             (Inl e, ks) \<Rightarrow> Inr (False, Some (a\<lparr>au_keys := ks\<rparr>))
           | (Inr cl, ks) \<Rightarrow> Inr (True, Some (a\<lparr>au_keys := ks\<rparr>))))"

inductive auth_step ::
  "'l auth_deps \<Rightarrow> 'k jwt_lib \<Rightarrow> ('cert, 'k) certs \<Rightarrow> (int \<Rightarrow> jwk list option) \<Rightarrow> int
     \<Rightarrow> ('k, 'l) authenticator option \<Rightarrow> ('k, 'l) authenticator option \<Rightarrow> bool"
  for deps lib cs provider now where
  auth_serve: "serve_auth deps lib cs now (provider now) rt r a = Some (resp, a') \<Longrightarrow>
     auth_step deps lib cs provider now (Some a) (Some a')"
| auth_attempt: "au_keys a = Some ks \<Longrightarrow>
     auth_step deps lib cs provider now (Some a) (Some (a\<lparr>au_keys := Some (record_attempt now ks)\<rparr>))"
| auth_install: "au_keys a = Some ks \<Longrightarrow> t \<le> now \<Longrightarrow> install_keys cs (provider t) ks = (ok, ks') \<Longrightarrow>
     auth_step deps lib cs provider now (Some a) (Some (a\<lparr>au_keys := Some ks'\<rparr>))"
| auth_cleanup: "auth_step deps lib cs provider now (Some a)
     (Some (a\<lparr>au_limiters := cleanupLimiters now order (au_limiters a)\<rparr>))"

text \<open>The keys in the store are those of one document that the provider has served by now.\<close>

definition known_keys :: "('cert, 'k) certs \<Rightarrow> (int \<Rightarrow> jwk list option) \<Rightarrow> int \<Rightarrow> 'k keyStore \<Rightarrow> bool" where
  "known_keys cs provider now ks \<longleftrightarrow> (\<exists>t js. t \<le> now \<and> provider t = Some js \<and> keys ks = jwks_keys cs js)"

definition auth_ok ::
  "('cert, 'k) certs \<Rightarrow> (int \<Rightarrow> jwk list option) \<Rightarrow> config \<Rightarrow> int \<Rightarrow> ('k, 'l) authenticator option \<Rightarrow> bool" where
  "auth_ok cs provider c now auth \<longleftrightarrow>
     (\<exists>a ks. auth = Some a \<and> au_cfg a = c \<and> au_keys a = Some ks \<and> known_keys cs provider now ks)"

text \<open>
  What a positive verdict proves: the request carries a token that the library verified with an RSA
  key which the provider published, issued for this client and by the configured issuer.
\<close>

definition token_proof ::
  "'k jwt_lib \<Rightarrow> ('cert, 'k) certs \<Rightarrow> (int \<Rightarrow> jwk list option) \<Rightarrow> oauth_config \<Rightarrow> int \<Rightarrow> request \<Rightarrow> bool" where
  "token_proof lib cs provider oc now r \<longleftrightarrow>
     (\<exists>raw hdr kid key t js cl auds.
        raw_token r = Some raw \<and> jwt_header_of lib raw = Some hdr \<and> hdr_rsa hdr \<and> hdr_kid hdr = Some kid \<and>
        t \<le> now \<and> provider t = Some js \<and> jwks_keys cs js kid = Some key \<and> jwt_verify lib raw key = Some (cl, True) \<and>
        (Issuer oc = [] \<or> GetIssuer lib cl = Some (Issuer oc)) \<and>
        GetAudience lib cl = Some auds \<and> ClientID oc \<in> set auds)"

lemma known_keys_later: "known_keys cs provider now ks \<Longrightarrow> now \<le> later \<Longrightarrow> known_keys cs provider later ks"
  unfolding known_keys_def by (meson order_trans)

lemma install_known:
  "t \<le> now \<Longrightarrow> known_keys cs provider now ks \<Longrightarrow> install_keys cs (provider t) ks = (ok, ks') \<Longrightarrow>
   known_keys cs provider now ks'"
  by (auto simp: install_keys_eq known_keys_def split: option.splits if_splits)

lemma record_known: "known_keys cs provider now (record_attempt t ks) \<longleftrightarrow> known_keys cs provider now ks"
  by (simp add: known_keys_def record_attempt_def)

lemma lookup_known:
  assumes "known_keys cs provider now ks" and "lookup_key cs now (provider now) kid ks = (r, ks')"
  shows "known_keys cs provider now ks' \<and> (\<forall>k. r = Some k \<longrightarrow> keys ks' kid = Some k)"
proof -
  have "known_keys cs provider now (snd (refresh cs now (provider now) ks))"
    using assms(1) install_known [of now now cs provider "record_attempt now ks"]
    by (simp add: refresh_def record_known prod_eq_iff)
  with assms show ?thesis
    by (auto simp: lookup_key_def refreshIfStale_def split: option.splits if_splits)
qed

lemma validateRawToken_keys:
  "snd (validateRawToken lib cs oc now answer raw (Some ks)) = Some ks \<or>
   (\<exists>kid r ks'. lookup_key cs now answer kid ks = (r, ks') \<and>
      snd (validateRawToken lib cs oc now answer raw (Some ks)) = Some ks')"
  by (auto simp: validateRawToken_def jwt_parse_def keyfunc_def split: option.split prod.split sum.split)

lemma validateRawToken_known:
  assumes "known_keys cs provider now ks"
  shows "\<exists>ks'. snd (validateRawToken lib cs oc now (provider now) raw (Some ks)) = Some ks' \<and>
    known_keys cs provider now ks'"
  using validateRawToken_keys [of lib cs oc now "provider now" raw ks] lookup_known [OF assms] assms
  by blast

lemma ValidateToken_known:
  assumes "known_keys cs provider now ks"
  shows "\<exists>ks'. snd (ValidateToken lib cs oc now (provider now) r (Some ks)) = Some ks' \<and>
    known_keys cs provider now ks'"
  using validateRawToken_known [OF assms] assms by (auto simp: ValidateToken_def split: option.split)

lemma ValidateToken_proof:
  assumes "known_keys cs provider now ks" and "fst (ValidateToken lib cs oc now (provider now) r (Some ks)) = Inr cl"
  shows "token_proof lib cs provider oc now r"
proof -
  obtain raw where raw: "raw_token r = Some raw"
    and ok: "fst (validateRawToken lib cs oc now (provider now) raw (Some ks)) = Inr cl"
    using assms(2) by (auto simp: ValidateToken_def split: option.splits)
  then obtain hdr kid key auds where t: "jwt_header_of lib raw = Some hdr" "hdr_rsa hdr" "hdr_kid hdr = Some kid"
    "fst (lookup_key cs now (provider now) kid ks) = Some key" "jwt_verify lib raw key = Some (cl, True)"
    "Issuer oc = [] \<or> GetIssuer lib cl = Some (Issuer oc)" "GetAudience lib cl = Some auds" "ClientID oc \<in> set auds"
    unfolding validateRawToken_iff jwt_parse_iff keyfunc_iff check_claims_iff by auto
  obtain ks' where "lookup_key cs now (provider now) kid ks = (Some key, ks')" using t(4) by (metis prod.collapse)
  from lookup_known [OF assms(1) this] obtain t js where "t \<le> now" "provider t = Some js" "jwks_keys cs js kid = Some key"
    by (auto simp: known_keys_def)
  with raw t show ?thesis unfolding token_proof_def by blast
qed

lemma serve_auth_keys:
  assumes "serve_auth deps lib cs now answer rt r a = Some (resp, a')"
  shows "au_cfg a' = au_cfg a \<and> (au_keys a' = au_keys a \<or>
    (\<exists>raw. au_keys a' = snd (validateRawToken lib cs (OAuthConfig (au_cfg a)) now answer raw (au_keys a))))"
  using assms
  by (auto simp: serve_auth_def rate_limited_def callback_run_def Let_def
      split: route.splits prod.splits option.splits if_splits)

lemma auth_step_ok: "auth_ok cs provider c now auth \<Longrightarrow> auth_step deps lib cs provider now auth auth' \<Longrightarrow> auth_ok cs provider c now auth'"
proof (erule auth_step.cases)
  fix rt r a resp a'
  assume ok: "auth_ok cs provider c now auth" and eq: "auth = Some a" "auth' = Some a'"
    and run: "serve_auth deps lib cs now (provider now) rt r a = Some (resp, a')"
  from ok eq obtain ks where ks: "au_cfg a = c" "au_keys a = Some ks" "known_keys cs provider now ks"
    by (auto simp: auth_ok_def)
  from serve_auth_keys [OF run] validateRawToken_known [OF ks(3)] ks show "auth_ok cs provider c now auth'"
    unfolding auth_ok_def eq by metis
qed (auto simp: auth_ok_def record_known intro: install_known)

interpretation oauth_validator: token_validator
  "oauth_validate lib cs provider" "auth_step deps lib cs provider" "auth_ok cs provider c"
  "token_proof lib cs provider (OAuthConfig c)"
  for lib cs provider deps c
proof
  fix now r a
  assume "auth_ok cs provider c now a"
  then obtain x ks where x: "a = Some x" "au_cfg x = c" "au_keys x = Some ks" "known_keys cs provider now ks"
    by (auto simp: auth_ok_def)
  obtain res ks' where run: "ValidateToken lib cs (OAuthConfig c) now (provider now) r (Some ks) = (res, ks')" by fastforce
  have new: "auth_ok cs provider c now (Some (x\<lparr>au_keys := ks'\<rparr>))"
    using ValidateToken_known [OF x(4), of lib "OAuthConfig c" r] run x(2) by (auto simp: auth_ok_def)
  have "token_proof lib cs provider (OAuthConfig c) now r" if "res = Inr cl" for cl
    using ValidateToken_proof [OF x(4), of lib "OAuthConfig c" r cl] run that by simp
  with new run x(1-3) show "\<exists>v a'. oauth_validate lib cs provider now r a = Inr (v, a') \<and> auth_ok cs provider c now a' \<and>
      (v \<longrightarrow> token_proof lib cs provider (OAuthConfig c) now r)"
    by (cases res) (auto simp: oauth_validate_def)
next
  show "auth_ok cs provider c later a" if "auth_ok cs provider c now a" "now \<le> later" for now a later
    using that known_keys_later by (fastforce simp: auth_ok_def)
  show "token_proof lib cs provider (OAuthConfig c) later r" if "token_proof lib cs provider (OAuthConfig c) now r" "now \<le> later" for now r later
    using that unfolding token_proof_def by (meson order_trans)
qed (rule auth_step_ok)

section \<open>The started program\<close>

definition program_reachable ::
  "'o api_view \<Rightarrow> (goval \<Rightarrow> string option) \<Rightarrow> (client \<Rightarrow> bool) \<Rightarrow> (client \<Rightarrow> request) \<Rightarrow> 'k jwt_lib
     \<Rightarrow> (int \<Rightarrow> jwk list option) \<Rightarrow> 'l auth_deps \<Rightarrow> ('cert, 'k) outside \<Rightarrow> ('k, 'l) server
     \<Rightarrow> ('o, ('k, 'l) authenticator option) program \<Rightarrow> bool" where
  "program_reachable api marshal upgrades req lib provider deps out sv w \<longleftrightarrow>
     (program_step api marshal (cfg (sv_hub sv)) upgrades req (oauth_validate lib (out_certs out) provider)
        (auth_step deps lib (out_certs out) provider))\<^sup>*\<^sup>*
       (init_program (cfg (sv_hub sv)) (out_now out) (sv_auth sv)) w"

text \<open>At start-up the provider has answered with the document that the key store holds.\<close>

definition provider_starts :: "('cert, 'k) outside \<Rightarrow> (int \<Rightarrow> jwk list option) \<Rightarrow> bool" where
  "provider_starts out provider \<longleftrightarrow>
     (\<forall>d. out_wellKnown out = Some d \<longrightarrow> provider (out_now out) = out_jwks out (d_JWKSURI d))"

lemma NewAuthenticator_ok:
  assumes "NewAuthenticator (out_certs out) (out_now out) (out_wellKnown out) (out_jwks out) c = Inr a"
    and "provider_starts out provider"
  shows "auth_ok (out_certs out) provider (au_cfg a) (out_now out) (Some a)"
proof -
  obtain d where d: "out_wellKnown out = Some d"
    using assms(1) by (auto simp: NewAuthenticator_def fetchWellKnownOIDCConfig_def split: option.splits)
  obtain ok ks where r: "refresh (out_certs out) (out_now out) (out_jwks out (d_JWKSURI d)) (newKeyStore 0) = (ok, ks)"
    by fastforce
  then have keys: ok "au_keys a = Some ks"
    using assms(1) d by (auto simp: NewAuthenticator_def fetchWellKnownOIDCConfig_def Let_def split: if_splits bool.splits)
  with r have "\<exists>js. out_jwks out (d_JWKSURI d) = Some js \<and> keys ks = jwks_keys (out_certs out) js"
    by (auto simp: refresh_def install_keys_eq split: option.splits if_splits)
  with assms(2) d have "known_keys (out_certs out) provider (out_now out) ks"
    by (auto simp: known_keys_def provider_starts_def)
  with keys show ?thesis by (auto simp: auth_ok_def)
qed

lemma server_main_parts:
  fixes sv :: "('k, 'l) server"
  assumes "server_main out env readFile = Inr sv"
  obtains c where "LoadConfig env readFile = Some c" "start_auth out c = Inr (sv_auth sv)"
    "cfg (sv_hub sv) = run_config (sv_auth sv) c"
proof -
  obtain c where c: "LoadConfig env readFile = Some c"
    using assms by (auto simp: server_main_def split: option.splits)
  with assms that show ?thesis
    by (auto simp: server_main_eq [OF c] newHub_def split: sum.splits if_splits)
qed

lemma server_main_config:
  assumes "server_main out env readFile = Inr sv"
  shows "AuthEnabled (cfg (sv_hub sv)) \<longleftrightarrow> env ''ENABLE_AUTHN'' = ''true''"
    and "SensitiveDataPaths (cfg (sv_hub sv)) = builtinSensitivePaths @ splitList (env ''SENSITIVE_DATA_PATHS'')"
proof -
  obtain c where c: "LoadConfig env readFile = Some c" and auth: "start_auth out c = Inr (sv_auth sv)"
    and cfg: "cfg (sv_hub sv) = run_config (sv_auth sv) c" using server_main_parts [OF assms] .
  obtain oc where "run_config (sv_auth sv) c = c\<lparr>OAuthConfig := oc\<rparr>" by (rule start_auth_cfg [OF auth])
  with c show "AuthEnabled (cfg (sv_hub sv)) \<longleftrightarrow> env ''ENABLE_AUTHN'' = ''true''"
    "SensitiveDataPaths (cfg (sv_hub sv)) = builtinSensitivePaths @ splitList (env ''SENSITIVE_DATA_PATHS'')"
    by (auto simp: cfg LoadConfig_def split: option.splits)
qed

lemma server_main_auth:
  fixes sv :: "('k, 'l) server"
  assumes "server_main out env readFile = Inr sv" and "provider_starts out provider" and "AuthEnabled (cfg (sv_hub sv))"
  shows "auth_ok (out_certs out) provider (cfg (sv_hub sv)) (out_now out) (sv_auth sv)"
proof -
  obtain c where auth: "start_auth out c = Inr (sv_auth sv)" and cfg: "cfg (sv_hub sv) = run_config (sv_auth sv) c"
    using server_main_parts [OF assms(1)] .
  obtain oc where "run_config (sv_auth sv) c = c\<lparr>OAuthConfig := oc\<rparr>" by (rule start_auth_cfg [OF auth])
  with assms(3) cfg have "AuthEnabled c" by simp
  with auth obtain a where a: "sv_auth sv = Some a"
    "NewAuthenticator (out_certs out) (out_now out) (out_wellKnown out) (out_jwks out) c = Inr a"
    by (cases "sv_auth sv") (auto simp: start_auth_def split: sum.splits)
  with NewAuthenticator_ok [OF a(2) assms(2)] cfg show ?thesis by (simp add: run_config_def)
qed

lemma program_reachable_inv:
  assumes "server_main out env readFile = Inr sv" and "provider_starts out provider" and "views_ok api"
    and "program_reachable api marshal upgrades req lib provider deps out sv w"
  shows "program_inv api marshal (cfg (sv_hub sv)) upgrades req (auth_ok (out_certs out) provider (cfg (sv_hub sv)))
    (token_proof lib (out_certs out) provider (OAuthConfig (cfg (sv_hub sv)))) w"
proof (rule oauth_validator.prog.reachable_inv [where deps = deps])
  show "\<exists>now a. init_program (cfg (sv_hub sv)) (out_now out) (sv_auth sv) = init_program (cfg (sv_hub sv)) now a \<and>
      (AuthEnabled (cfg (sv_hub sv)) \<longrightarrow> auth_ok (out_certs out) provider (cfg (sv_hub sv)) now a)"
    using server_main_auth [OF assms(1,2)] by blast
  show "(\<lambda>w w'. views_ok api \<and> program_step api marshal (cfg (sv_hub sv)) upgrades req
      (oauth_validate lib (out_certs out) provider) (auth_step deps lib (out_certs out) provider) w w')\<^sup>*\<^sup>*
      (init_program (cfg (sv_hub sv)) (out_now out) (sv_auth sv)) w"
    using assms(3,4) by (simp add: program_reachable_def)
qed

lemma written_frame_clean:
  assumes "process_inv api marshal c valid p" and "f \<in> set (written (pr_hub p) k)"
  shows "clean_frame api marshal c f"
proof -
  have "f \<in> set (outbox (pr_inspector p))"
    using written_ahead(1) [OF assms(1), of k] assms(2) by (auto elim: list_emb_set)
  moreover from this have "inspect_inv api marshal c (pr_inspector p)"
    using assms(1) by (auto simp: process_inv_def new_inspector_def split: if_splits)
  ultimately show ?thesis by (simp add: inspect_inv_def)
qed

section \<open>A run from the environment to the wire\<close>

text \<open>
  The environment switches authentication on and adds a sensitive path; the provider has the key \<open>k\<close>.
  The connection 0 shows its token and is admitted; the first snapshot is fanned out and written.
\<close>

definition run_env :: "string \<Rightarrow> string" where
  "run_env k =
     (if k = ''ENABLE_AUTHN'' then ''true'' else if k = ''SENSITIVE_DATA_PATHS'' then ''nodes.*.key'' else [])"

definition run_jwks :: "jwk list" where
  "run_jwks = [\<lparr>Kid = ''k'', X5c = [''12345'']\<rparr>]"

definition run_outside :: "(nat, nat) outside" where
  "run_outside =
     \<lparr>out_certs = demo_certs, out_now = 7, out_wellKnown = Some demo_discovery, out_jwks = (\<lambda>_. Some run_jwks),
      out_docker = True\<rparr>"

definition run_auth :: "(nat, nat) authenticator" where
  "run_auth =
     \<lparr>au_cfg = demo_conf, au_oauthConfig = setupOAuthConfig (OAuthConfig demo_conf),
      au_keys = Some \<lparr>keys = [''k'' \<mapsto> 5], lastRefresh = 7\<rparr>, au_limiters = Map.empty\<rparr>"

definition run_req :: "client \<Rightarrow> request" where
  "run_req k =
     \<lparr>RemoteAddr = ''10.0.0.1:1'', Header = (\<lambda>_. []), Cookie = (if k = 0 then [''id_token'' \<mapsto> ''tok''] else Map.empty),
      Query = (\<lambda>_. [])\<rparr>"

lemma run_config_loads:
  "LoadConfig run_env (\<lambda>_. None) = Some (demo_conf\<lparr>OAuthConfig := OAuthConfig example_config\<rparr>)"
proof -
  have "splitList ''nodes.*.key'' = [''nodes.*.key'']" "splitList [] = []" "TrimSpace [] = []" by code_simp+
  then show ?thesis
    by (simp add: LoadConfig_def loadClientSecret_def loadContextRoot_def getEnv_def positiveSetting_def
        loadTrustedProxies_def run_env_def demo_conf_def example_config_def defaultContextRoot_def HasSuffix_def
        defaultListenerPort_def defaultSessionMaxAge_def defaultMaxWSConnections_def)
qed

lemma run_auth_starts:
  "start_auth run_outside (demo_conf\<lparr>OAuthConfig := OAuthConfig example_config\<rparr>) = Inr (Some run_auth)"
  by (simp add: start_auth_def NewAuthenticator_def fetchWellKnownOIDCConfig_def run_outside_def demo_discovery_def
      refresh_def install_keys_def record_attempt_def newKeyStore_def run_jwks_def demo_certs_def usable_key_def
      run_auth_def apply_discovery_def demo_conf_def example_config_def numeral_eq_Suc)

lemma run_server:
  obtains sv :: "(nat, nat) server" where "server_main run_outside run_env (\<lambda>_. None) = Inr sv"
    "cfg (sv_hub sv) = demo_conf" "sv_auth sv = Some run_auth"
  using server_main_eq [OF run_config_loads, of run_outside, where 'l = nat] run_auth_starts
  by (simp add: run_outside_def run_config_def newHub_def run_auth_def)

lemma run_provider: "provider_starts run_outside (\<lambda>_. Some run_jwks)"
  by (simp add: provider_starts_def run_outside_def)

lemma run_validates:
  "oauth_validate demo_lib demo_certs (\<lambda>_. Some run_jwks) 7 (run_req 0) (Some run_auth) = Inr (True, Some run_auth)"
  by (simp add: oauth_validate_def ValidateToken_def raw_token_def run_req_def validateRawToken_def jwt_parse_def
      keyfunc_def lookup_key_def check_claims_def demo_lib_def run_auth_def demo_conf_def example_config_def)

text \<open>The run at \<open>p\<close>, before and after the verdict on the connection 0.\<close>

definition run_at :: "bool \<Rightarrow> unit process \<Rightarrow> (unit, (nat, nat) authenticator option) program" where
  "run_at admitted p =
     \<lparr>pg_now = 7, pg_proc = p, pg_auth = Some run_auth,
      pg_verdict = (if admitted then (\<lambda>_. None)(0 := Some True) else (\<lambda>_. None))\<rparr>"

abbreviation run_step ::
  "(unit, (nat, nat) authenticator option) program \<Rightarrow> (unit, (nat, nat) authenticator option) program \<Rightarrow> bool" where
  "run_step \<equiv> program_step demo_api demo_marshal demo_conf (\<lambda>_. True) run_req
     (oauth_validate demo_lib demo_certs (\<lambda>_. Some run_jwks)) (auth_step demo_deps demo_lib demo_certs (\<lambda>_. Some run_jwks))"

lemma run_proc:
  assumes "process_step demo_api demo_marshal demo_conf (\<lambda>_. True) (\<lambda>k. pg_verdict (run_at v p) k = Some True) p q"
    and "\<And>k. hpc (pr_hub p) k = HAuth \<Longrightarrow> hpc (pr_hub q) k = HAuth"
  shows "run_step (run_at v p) (run_at v q)"
  using prog_proc [of demo_api demo_marshal demo_conf "\<lambda>_. True" "run_at v p" q] assms
  by (cases v) (simp_all add: run_at_def pg_hub_def)

lemma run_hub:
  assumes "bcast_step s t \<or> conn_step (\<lambda>_. True) (\<lambda>k. pg_verdict (run_at v w) k = Some True) s t \<or> pump_step s t"
    and "panicked s = None" and "\<And>k. hpc s k = HAuth \<Longrightarrow> hpc t k = HAuth"
  shows "run_step (run_at v (p\<lparr>pr_hub := s\<rparr>)) (run_at v (p\<lparr>pr_hub := t\<rparr>))"
  using assms proc_hub [of "p\<lparr>pr_hub := s\<rparr>" t "\<lambda>_. True" "\<lambda>k. pg_verdict (run_at v w) k = Some True" demo_api demo_marshal demo_conf]
  by (intro run_proc) (simp_all add: run_at_def)

lemma run_connects: "run_step\<^sup>*\<^sup>* (run_at False (init_process demo_conf)) (run_at True ((init_process demo_conf)\<lparr>pr_hub := demo_hub0\<rparr>))"
proof -
  let ?at = "\<lambda>p. set_hpc 0 p (init_sys demo_conf)" and ?run = "\<lambda>v s. run_at v ((init_process demo_conf)\<lparr>pr_hub := s\<rparr>)"
  have set: "set_hpc 0 p (?at q) = ?at p" for p q by (simp add: set_hpc_def)
  have init: "init_process demo_conf = (init_process demo_conf :: unit process)\<lparr>pr_hub := init_sys demo_conf\<rparr>"
    by (simp add: init_process_def)
  have "conn_step (\<lambda>_. True) v (init_sys demo_conf) (?at HUpgrade)" for v
    by (rule conn_admit) (simp_all add: demo_hub_defs lock_free_def atCapacity_def)
  then have 1: "run_step (run_at False (init_process demo_conf)) (?run False (?at HUpgrade))"
    by (subst init, intro run_hub) (auto simp: set_hpc_def init_sys_def)
  have "conn_step (\<lambda>_. True) v (?at HUpgrade) (set_hpc 0 HAuth (?at HUpgrade))" for v
    by (rule conn_upgrade) (simp_all add: set_hpc_def)
  then have 2: "run_step (?run False (?at HUpgrade)) (?run False (?at HAuth))"
    unfolding set by (intro run_hub) (auto simp: set_hpc_def init_sys_def split: if_splits)
  have 3: "run_step (?run False (?at HAuth)) (?run True (?at HRegister))"
    using prog_admit [of demo_conf "?run False (?at HAuth)" 0 "oauth_validate demo_lib demo_certs (\<lambda>_. Some run_jwks)"
        run_req True "Some run_auth" demo_api demo_marshal "\<lambda>_. True"] run_validates
    by (simp add: run_at_def pg_hub_def set_hub_def admit_def set) (simp add: set_hpc_def init_sys_def demo_conf_def)
  have "conn_step (\<lambda>_. True) v (?at HRegister) demo_hub0" for v
    by (rule conn_register [where c = 0])
      (simp_all add: demo_hub_defs lock_free_def do_register_def register_def)
  then have 4: "run_step (?run True (?at HRegister)) (?run True demo_hub0)"
    by (intro run_hub) (auto simp: demo_hub_defs split: if_splits)
  from 1 2 3 4 show ?thesis by (meson r_into_rtranclp rtranclp.rtrancl_into_rtrancl)
qed

lemma run_bcast:
  assumes "bcast_step\<^sup>*\<^sup>* s t" and "hub_inv demo_conf valid s"
  shows "run_step\<^sup>*\<^sup>* (run_at v (p\<lparr>pr_hub := s\<rparr>)) (run_at v (p\<lparr>pr_hub := t\<rparr>))"
  using assms(1)
proof (induction rule: rtranclp_induct)
  case (step t u)
  have "panicked t = None" using hub_invD(1) bcast_steps_inv [OF step.hyps(1) assms(2)] .
  then have "run_step (run_at v (p\<lparr>pr_hub := t\<rparr>)) (run_at v (p\<lparr>pr_hub := u\<rparr>))"
    using step.hyps(2) bcast_keeps_pcs [OF step.hyps(2)] by (intro run_hub) simp_all
  with step.IH show ?case by simp
qed simp

lemma run_delivers: "run_step\<^sup>*\<^sup>* (run_at True ((init_process demo_conf)\<lparr>pr_hub := demo_hub0\<rparr>)) (run_at True demo_process)"
proof -
  let ?p0 = "(init_process demo_conf)\<lparr>pr_hub := demo_hub0\<rparr> :: unit process"
  let ?p1 = "\<lparr>pr_started = True, pr_inspector = demo_sent, pr_hub = demo_hub0\<rparr>"
  have 1: "run_step (run_at True ?p0) (run_at True ?p1)"
    using proc_start [of ?p0, OF _ demo_inspect_start] by (intro run_proc) (simp_all add: init_process_def)
  have 2: "run_step (run_at True ?p1) (run_at True (?p1\<lparr>pr_hub := demo_hub1\<rparr>))"
    using proc_publish [of ?p1 "''frame''" "[]"] demo_sent_simps(1)
    by (intro run_proc) (simp_all add: demo_hub_defs Publish_def)
  have 3: "run_step\<^sup>*\<^sup>* (run_at True (?p1\<lparr>pr_hub := demo_hub1\<rparr>)) (run_at True (?p1\<lparr>pr_hub := demo_hub2\<rparr>))"
    by (rule run_bcast [OF demo_fans_out demo_hub1_inv])
  have "pump_step demo_hub2 demo_hub3" unfolding demo_hub3_def by (rule pump_write) (simp_all add: demo_hub_defs)
  then have 4: "run_step (run_at True (?p1\<lparr>pr_hub := demo_hub2\<rparr>)) (run_at True (?p1\<lparr>pr_hub := demo_hub3\<rparr>))"
    by (intro run_hub) (auto simp: demo_hub_defs pump_take_def)
  from 1 2 3 4 show ?thesis
    by (simp add: demo_process_def)
qed

lemma run_reachable:
  assumes "cfg (sv_hub sv) = demo_conf" and "sv_auth sv = Some run_auth"
  shows "program_reachable demo_api demo_marshal (\<lambda>_. True) run_req demo_lib (\<lambda>_. Some run_jwks) demo_deps run_outside sv
    (run_at True demo_process)"
proof -
  have "init_program demo_conf 7 (Some run_auth) = run_at False (init_process demo_conf)"
    by (simp add: init_program_def run_at_def)
  with rtranclp_trans [OF run_connects run_delivers] assms show ?thesis
    by (simp add: program_reachable_def run_outside_def)
qed

end
