(* ===== verification/Keepalive.thy ===== *)
theory Keepalive
  imports Prelude
begin

text \<open>
  The keepalive of one WebSocket connection in \<open>internal/docker/handlers.go\<close>: the ticker and the pings
  of \<open>writePump\<close>, and the read deadline that the pong handler of \<open>handleConnections\<close> moves.  Times are
  nanoseconds.  The connection is a timed state machine: time advances in steps of its own, and does
  not pass the moment at which something has to happen.  What has to happen is bounded by two
  parameters: \<open>d\<close>, by which the scheduler and other writes may delay the pump, and the round trip
  \<open>rtt\<close> after which the peer has answered a ping (\<open>None\<close> for a peer that never answers).
\<close>

section \<open>The connection\<close>

definition second :: int where
  "second = 1000000000"

definition pingPeriod :: int where
  "pingPeriod = 30 * second"

definition pongWait :: int where
  "pongWait = 60 * second"

text \<open>
  \<open>ka_ticker\<close> is the next tick once the pump has created its ticker, \<open>ka_tick\<close> the time since which a
  tick waits in the ticker's channel (of capacity 1), \<open>ka_pings\<close> the pings not yet answered, oldest
  first.  \<open>ka_start\<close> is when the deadline was first set.
\<close>

record keepalive =
  ka_now :: int
  ka_start :: int
  ka_deadline :: int
  ka_ticker :: "int option"
  ka_tick :: "int option"
  ka_pings :: "int list"
  ka_open :: bool
  ka_write_failed :: bool

definition ka_init :: "int \<Rightarrow> keepalive" where
  "ka_init t0 =
     \<lparr>ka_now = t0, ka_start = t0, ka_deadline = t0 + pongWait, ka_ticker = None, ka_tick = None, ka_pings = [],
      ka_open = True, ka_write_failed = False\<rparr>"

text \<open>How far time may advance before something has to happen.\<close>

definition may_wait :: "int \<Rightarrow> int option \<Rightarrow> keepalive \<Rightarrow> int \<Rightarrow> bool" where
  "may_wait d rtt s t \<longleftrightarrow>
     t \<le> ka_deadline s \<and>
     (case ka_ticker s of None \<Rightarrow> t \<le> ka_start s + d | Some n \<Rightarrow> t \<le> n) \<and>
     (case ka_tick s of None \<Rightarrow> True | Some u \<Rightarrow> t \<le> u + d) \<and>
     (case (rtt, ka_pings s) of (Some r, p # _) \<Rightarrow> t \<le> p + r | _ \<Rightarrow> True)"

inductive ka_step :: "int \<Rightarrow> int option \<Rightarrow> keepalive \<Rightarrow> keepalive \<Rightarrow> bool" for d rtt where
  ka_wait: "ka_open s \<Longrightarrow> ka_now s \<le> t \<Longrightarrow> may_wait d rtt s t \<Longrightarrow> ka_step d rtt s (s\<lparr>ka_now := t\<rparr>)"
| ka_pump: "ka_open s \<Longrightarrow> ka_ticker s = None \<Longrightarrow>
     ka_step d rtt s (s\<lparr>ka_ticker := Some (ka_now s + pingPeriod)\<rparr>)"
| ka_fire: "ka_open s \<Longrightarrow> ka_ticker s = Some (ka_now s) \<Longrightarrow>
     ka_step d rtt s (s\<lparr>ka_ticker := Some (ka_now s + pingPeriod),
       ka_tick := (case ka_tick s of None \<Rightarrow> Some (ka_now s) | Some u \<Rightarrow> Some u)\<rparr>)"
| ka_ping: "ka_open s \<Longrightarrow> ka_tick s = Some u \<Longrightarrow>
     ka_step d rtt s (s\<lparr>ka_tick := None, ka_pings := ka_pings s @ [ka_now s]\<rparr>)"
| ka_write_error: "ka_open s \<Longrightarrow> ka_step d rtt s (s\<lparr>ka_open := False, ka_write_failed := True\<rparr>)"
| ka_pong: "ka_open s \<Longrightarrow> rtt = Some r \<Longrightarrow> ka_pings s = p # ps \<Longrightarrow>
     ka_step d rtt s (s\<lparr>ka_pings := ps, ka_deadline := ka_now s + pongWait\<rparr>)"
| ka_frame: "ka_open s \<Longrightarrow> ka_step d rtt s s"
| ka_timeout: "ka_open s \<Longrightarrow> ka_deadline s \<le> ka_now s \<Longrightarrow> ka_step d rtt s (s\<lparr>ka_open := False\<rparr>)"

definition ka_reachable :: "int \<Rightarrow> int option \<Rightarrow> int \<Rightarrow> keepalive \<Rightarrow> bool" where
  "ka_reachable d rtt t0 s \<longleftrightarrow> (ka_step d rtt)\<^sup>*\<^sup>* (ka_init t0) s"

section \<open>A peer that answers\<close>

text \<open>
  The state of a connection to a peer that answers within \<open>r\<close>, with \<open>n\<close> the next tick: before the
  pump has started; between two rounds; with a tick waiting; with a ping under way.
\<close>

definition ka_phase :: "int \<Rightarrow> int \<Rightarrow> keepalive \<Rightarrow> bool" where
  "ka_phase d r s \<longleftrightarrow>
     (case ka_ticker s of
        None \<Rightarrow>
          ka_tick s = None \<and> ka_pings s = [] \<and> ka_start s \<le> ka_now s \<and> ka_now s \<le> ka_start s + d \<and>
          ka_deadline s = ka_start s + pongWait
      | Some n \<Rightarrow>
          n - pingPeriod \<le> ka_now s \<and> ka_now s \<le> n \<and>
          (case (ka_tick s, ka_pings s) of
             (None, []) \<Rightarrow> n - pingPeriod - d + pongWait \<le> ka_deadline s
           | (Some u, []) \<Rightarrow>
               u = n - pingPeriod \<and> ka_now s \<le> u + d \<and> n - 2 * pingPeriod - d + pongWait \<le> ka_deadline s
           | (None, [p]) \<Rightarrow>
               n - pingPeriod \<le> p \<and> p \<le> n - pingPeriod + d \<and> p \<le> ka_now s \<and> ka_now s \<le> p + r \<and>
               n - 2 * pingPeriod - d + pongWait \<le> ka_deadline s
           | _ \<Rightarrow> False))"

definition ka_inv :: "int \<Rightarrow> int \<Rightarrow> keepalive \<Rightarrow> bool" where
  "ka_inv d r s \<longleftrightarrow> (ka_open s \<longrightarrow> ka_phase d r s) \<and> (\<not> ka_open s \<longrightarrow> ka_write_failed s)"

definition quick :: "int \<Rightarrow> int \<Rightarrow> bool" where
  "quick d r \<longleftrightarrow> 0 \<le> d \<and> 0 \<le> r \<and> 2 * d + r < pingPeriod"

lemmas ka_times = pingPeriod_def pongWait_def second_def quick_def

lemma ka_phase_in_time: "quick d r \<Longrightarrow> ka_phase d r s \<Longrightarrow> ka_now s < ka_deadline s"
  by (auto simp: ka_phase_def ka_times split: option.splits list.splits)

lemma ka_init_phase: "quick d r \<Longrightarrow> ka_inv d r (ka_init t0)"
  by (simp add: ka_inv_def ka_phase_def ka_init_def quick_def)

lemma ka_step_phase:
  assumes "quick d r" and "ka_inv d r s" and "ka_step d (Some r) s t"
  shows "ka_inv d r t"
  using assms(3)
proof cases
  case (ka_wait t')
  with assms(1,2) show ?thesis
    by (auto simp: ka_inv_def ka_phase_def may_wait_def split: option.splits list.splits)
next
  case ka_timeout
  with assms(1,2) ka_phase_in_time [of d r s] show ?thesis by (simp add: ka_inv_def)
qed (use assms(1,2) in \<open>auto simp: ka_inv_def ka_phase_def ka_times split: option.splits list.splits\<close>)

interpretation keepalive_system: invariant_system
  "\<lambda>s. quick d r \<and> s = ka_init t0" "\<lambda>s t. quick d r \<and> ka_step d (Some r) s t" "ka_inv d r"
  for d r t0
  by unfold_locales (auto simp: ka_init_phase intro: ka_step_phase)


section \<open>A peer that does not answer\<close>

text \<open>Nothing but a pong moves the deadline.\<close>

definition ka_silent :: "int \<Rightarrow> keepalive \<Rightarrow> bool" where
  "ka_silent t0 s \<longleftrightarrow>
     ka_deadline s = t0 + pongWait \<and> ka_start s = t0 \<and>
     (ka_open s \<longrightarrow> ka_now s \<le> t0 + pongWait \<and> \<not> ka_write_failed s \<and>
        (\<forall>n. ka_ticker s = Some n \<longrightarrow> ka_now s \<le> n))"

lemma ka_silent_init: "ka_silent t0 (ka_init t0)"
  by (simp add: ka_silent_def ka_init_def ka_times)

lemma ka_silent_step: "ka_silent t0 s \<Longrightarrow> ka_step d None s t \<Longrightarrow> ka_silent t0 t"
  by (erule ka_step.cases) (auto simp: ka_silent_def may_wait_def ka_times)

interpretation silent_system: invariant_system "\<lambda>s. s = ka_init t0" "ka_step d None" "ka_silent t0"
  for d t0
  by unfold_locales (auto simp: ka_silent_init intro: ka_silent_step)

text \<open>Left alone, the connection runs into its deadline, through the ticks that are still due.\<close>

lemma ka_expires:
  assumes "0 \<le> d" and "ka_open s" and "ka_silent t0 s" and "ka_tick s = None" and "ka_ticker s = Some n"
  shows "\<exists>t. (ka_step d None)\<^sup>*\<^sup>* s t \<and> \<not> ka_open t \<and> \<not> ka_write_failed t \<and> ka_now t = t0 + pongWait"
  using assms(2-5)
proof (induction "nat (t0 + pongWait - n)" arbitrary: s n rule: less_induct)
  case less
  let ?step = "ka_step d None"
  have now: "ka_now s \<le> t0 + pongWait" "ka_now s \<le> n" "ka_deadline s = t0 + pongWait" "\<not> ka_write_failed s"
    using less.prems by (auto simp: ka_silent_def)
  show ?case
  proof (cases "t0 + pongWait \<le> n")
    case True
    let ?t = "s\<lparr>ka_now := t0 + pongWait\<rparr>"
    have "?step s ?t" using True less.prems now by (intro ka_wait) (simp_all add: may_wait_def)
    moreover have "?step ?t (?t\<lparr>ka_open := False\<rparr>)" using less.prems now by (intro ka_timeout) simp_all
    ultimately have "?step\<^sup>*\<^sup>* s (?t\<lparr>ka_open := False\<rparr>)" by simp
    moreover have "\<not> ka_open (?t\<lparr>ka_open := False\<rparr>) \<and> \<not> ka_write_failed (?t\<lparr>ka_open := False\<rparr>) \<and>
        ka_now (?t\<lparr>ka_open := False\<rparr>) = t0 + pongWait" using now(4) by simp
    ultimately show ?thesis by blast
  next
    case False
    let ?a = "s\<lparr>ka_now := n\<rparr>"
    let ?b = "?a\<lparr>ka_ticker := Some (n + pingPeriod), ka_tick := Some n\<rparr>"
    let ?c = "?b\<lparr>ka_tick := None, ka_pings := ka_pings s @ [n]\<rparr>"
    have 1: "?step s ?a" using False less.prems now by (intro ka_wait) (simp_all add: may_wait_def)
    have 2: "?step ?a ?b" using ka_fire [of ?a d None] less.prems by simp
    have 3: "?step ?b ?c" using ka_ping [of ?b n d None] less.prems by simp
    have steps: "?step\<^sup>*\<^sup>* s ?c" using 1 2 3 by (meson converse_rtranclp_into_rtranclp rtranclp.rtrancl_refl)
    have "ka_silent t0 ?c" by (rule silent_system.steps_inv [OF steps less.prems(2)])
    moreover have "nat (t0 + pongWait - (n + pingPeriod)) < nat (t0 + pongWait - n)"
      using False by (simp add: ka_times)
    ultimately obtain t where "?step\<^sup>*\<^sup>* ?c t" "\<not> ka_open t \<and> \<not> ka_write_failed t \<and> ka_now t = t0 + pongWait"
      using less.hyps [of "n + pingPeriod" ?c] less.prems by auto
    with rtranclp_trans [OF steps] show ?thesis by blast
  qed
qed

text \<open>A state with a waiting tick or without a ticker gets to one that \<open>ka_expires\<close> applies to.\<close>

lemma ka_settles:
  assumes "ka_open s"
  shows "\<exists>t n. (ka_step d None)\<^sup>*\<^sup>* s t \<and> ka_open t \<and> ka_tick t = None \<and> ka_ticker t = Some n"
proof -
  obtain u where u: "(ka_step d None)\<^sup>*\<^sup>* s u" "ka_open u" "\<exists>n. ka_ticker u = Some n"
  proof (cases "ka_ticker s")
    case None
    with assms that [of "s\<lparr>ka_ticker := Some (ka_now s + pingPeriod)\<rparr>"] show thesis
      by (auto intro: ka_pump)
  next
    case (Some n)
    with assms that [of s] show thesis by blast
  qed
  show ?thesis
  proof (cases "ka_tick u")
    case None
    with u show ?thesis by blast
  next
    case (Some v)
    let ?t = "u\<lparr>ka_tick := None, ka_pings := ka_pings u @ [ka_now u]\<rparr>"
    have "ka_step d None u ?t" using u(2) Some by (rule ka_ping)
    with u(1) have "(ka_step d None)\<^sup>*\<^sup>* s ?t" by (rule rtranclp.rtrancl_into_rtrancl)
    moreover have "ka_open ?t" "ka_tick ?t = None" "\<exists>n. ka_ticker ?t = Some n" using u by simp_all
    ultimately show ?thesis by blast
  qed
qed

text \<open>
  C15: a peer that has vanished is reaped: its connection is never open later than the pong wait after
  it was opened, whatever data frames it sends, and from every state on the way the read loop does
  get to its timeout at exactly that moment (which frees the slot of the client).
\<close>

theorem silent_peer_reaped:
  assumes "0 \<le> d" and "ka_reachable d None t0 s" and "ka_open s"
  shows "ka_now s \<le> t0 + pongWait \<and>
    (\<exists>t. (ka_step d None)\<^sup>*\<^sup>* s t \<and> \<not> ka_open t \<and> \<not> ka_write_failed t \<and> ka_now t = t0 + pongWait)"
proof -
  have inv: "ka_silent t0 s"
    using silent_system.reachable_inv [OF refl] assms(2) by (simp add: ka_reachable_def)
  obtain u n where u: "(ka_step d None)\<^sup>*\<^sup>* s u" "ka_open u" "ka_tick u = None" "ka_ticker u = Some n"
    using ka_settles [OF assms(3)] by blast
  have "ka_silent t0 u" by (rule silent_system.steps_inv [OF u(1) inv])
  from ka_expires [OF assms(1) u(2) this u(3,4)] u(1) inv assms(3) show ?thesis
    by (meson ka_silent_def rtranclp_trans)
qed

section \<open>Witnesses\<close>

lemma ka_start_reachable: "ka_reachable d rtt t0 (ka_init t0)"
  by (simp add: ka_reachable_def)

text \<open>A peer with a round trip of one second has answered its first ping.\<close>

definition demo_answered :: keepalive where
  "demo_answered =
     \<lparr>ka_now = 31 * second, ka_start = 0, ka_deadline = 91 * second, ka_ticker = Some (60 * second), ka_tick = None,
      ka_pings = [], ka_open = True, ka_write_failed = False\<rparr>"

lemma demo_answered_reachable: "ka_reachable 0 (Some second) 0 demo_answered"
proof -
  let ?step = "ka_step 0 (Some second)"
  let ?s = "\<lambda>now tick pings. \<lparr>ka_now = now, ka_start = 0, ka_deadline = pongWait,
    ka_ticker = Some (if tick = None \<and> pings = [] then pingPeriod else 2 * pingPeriod), ka_tick = tick,
    ka_pings = pings, ka_open = True, ka_write_failed = False\<rparr>"
  have "?step (ka_init 0) (?s 0 None [])"
    using ka_pump [of "ka_init 0" 0 "Some second"] by (simp add: ka_init_def)
  moreover have "?step (?s 0 None []) (?s pingPeriod None [])"
    using ka_wait [of "?s 0 None []" pingPeriod 0 "Some second"] by (simp add: may_wait_def ka_times)
  moreover have "?step (?s pingPeriod None []) (?s pingPeriod (Some pingPeriod) [])"
    using ka_fire [of "?s pingPeriod None []" 0 "Some second"] by simp
  moreover have "?step (?s pingPeriod (Some pingPeriod) []) (?s pingPeriod None [pingPeriod])"
    using ka_ping [of "?s pingPeriod (Some pingPeriod) []" pingPeriod 0 "Some second"] by simp
  moreover have "?step (?s pingPeriod None [pingPeriod]) (?s (pingPeriod + second) None [pingPeriod])"
    using ka_wait [of "?s pingPeriod None [pingPeriod]" "pingPeriod + second" 0 "Some second"]
    by (simp add: may_wait_def ka_times)
  moreover have "?step (?s (pingPeriod + second) None [pingPeriod]) demo_answered"
    using ka_pong [of "?s (pingPeriod + second) None [pingPeriod]" "Some second" second pingPeriod "[]" 0]
    by (simp add: demo_answered_def ka_times)
  ultimately show ?thesis
    unfolding ka_reachable_def by (meson converse_rtranclp_into_rtranclp rtranclp.rtrancl_refl)
qed


theorem silent_peer_reaped_witness:
  "\<exists>t. (ka_step 0 None)\<^sup>*\<^sup>* (ka_init 7) t \<and> \<not> ka_open t \<and> ka_now t = 7 + pongWait"
  using silent_peer_reaped [of 0 7 "ka_init 7"] ka_start_reachable [of 0 None 7] by (auto simp: ka_init_def)

end
