(* ===== verification/Polling.thy ===== *)
theory Polling
  imports Prelude
begin

text \<open>
  The two tickers of \<open>inspectSwarmServices\<close> and the loop that serves them, with time (in nanoseconds).
  A ticker's channel has capacity 1 and drops a tick that finds it full; a \<open>select\<close> with two ticks
  waiting takes either.  A round of the loop (fetching, and handing a changed snapshot to the hub,
  which always drains) takes at most \<open>d\<close>; the \<open>select\<close> itself takes no time.
\<close>

section \<open>The loop\<close>

definition taskPollInterval :: int where
  "taskPollInterval = 1 * 1000000000"

definition structuralPollInterval :: int where
  "structuralPollInterval = 5 * 1000000000"

datatype poll_kind = PollTasks | PollStructural

text \<open>
  Per ticker: when it fires next, the tick that waits in its channel (with the time it fired), and
  when the last poll of its kind began.  \<open>po_busy\<close> is the round under way and when it began.
\<close>

record ticker =
  tk_next :: int
  tk_tick :: "int option"
  tk_last :: int

record poller =
  po_now :: int
  po_task :: ticker
  po_struct :: ticker
  po_busy :: "(poll_kind \<times> int) option"

definition NewTicker :: "int \<Rightarrow> int \<Rightarrow> ticker" where
  "NewTicker period now = \<lparr>tk_next = now + period, tk_tick = None, tk_last = now\<rparr>"

definition tick :: "int \<Rightarrow> ticker \<Rightarrow> ticker" where
  "tick period k =
     k\<lparr>tk_next := tk_next k + period, tk_tick := (case tk_tick k of None \<Rightarrow> Some (tk_next k) | Some v \<Rightarrow> Some v)\<rparr>"

definition take_tick :: "int \<Rightarrow> ticker \<Rightarrow> ticker" where
  "take_tick now k = k\<lparr>tk_tick := None, tk_last := now\<rparr>"

text \<open>The loop is entered after the initial fetch, which counts as the first poll of either kind.\<close>

definition poll_init :: "int \<Rightarrow> poller" where
  "poll_init t0 =
     \<lparr>po_now = t0, po_task = NewTicker taskPollInterval t0, po_struct = NewTicker structuralPollInterval t0,
      po_busy = None\<rparr>"

definition poll_may_wait :: "int \<Rightarrow> poller \<Rightarrow> int \<Rightarrow> bool" where
  "poll_may_wait d s t \<longleftrightarrow>
     po_now s \<le> t \<and> t \<le> tk_next (po_task s) \<and> t \<le> tk_next (po_struct s) \<and>
     (case po_busy s of
        None \<Rightarrow> tk_tick (po_task s) = None \<and> tk_tick (po_struct s) = None
      | Some (k, u) \<Rightarrow> t \<le> u + d)"

inductive loop_step :: "int \<Rightarrow> poller \<Rightarrow> poller \<Rightarrow> bool" for d where
  loop_wait: "poll_may_wait d s t \<Longrightarrow> loop_step d s (s\<lparr>po_now := t\<rparr>)"
| loop_fire_task: "tk_next (po_task s) = po_now s \<Longrightarrow>
     loop_step d s (s\<lparr>po_task := tick taskPollInterval (po_task s)\<rparr>)"
| loop_fire_struct: "tk_next (po_struct s) = po_now s \<Longrightarrow>
     loop_step d s (s\<lparr>po_struct := tick structuralPollInterval (po_struct s)\<rparr>)"
| loop_task: "po_busy s = None \<Longrightarrow> tk_tick (po_task s) = Some v \<Longrightarrow>
     loop_step d s (s\<lparr>po_task := take_tick (po_now s) (po_task s), po_busy := Some (PollTasks, po_now s)\<rparr>)"
| loop_struct: "po_busy s = None \<Longrightarrow> tk_tick (po_struct s) = Some v \<Longrightarrow>
     loop_step d s (s\<lparr>po_struct := take_tick (po_now s) (po_struct s), po_busy := Some (PollStructural, po_now s)\<rparr>)"
| loop_done: "po_busy s = Some (k, u) \<Longrightarrow> loop_step d s (s\<lparr>po_busy := None\<rparr>)"

section \<open>The invariant\<close>

definition tick_ok :: "int \<Rightarrow> int \<Rightarrow> int \<Rightarrow> ticker \<Rightarrow> bool" where
  "tick_ok period d now k \<longleftrightarrow>
     tk_next k - period \<le> now \<and> now \<le> tk_next k \<and>
     (case tk_tick k of
        None \<Rightarrow> tk_next k \<le> tk_last k + period
      | Some v \<Rightarrow> v = tk_next k - period \<and> now \<le> v + 2 * d \<and> v \<le> tk_last k + period)"

text \<open>A waiting tick was not passed over yet, or the other ticker does not fire before it is taken.\<close>

definition idle_ok :: "int \<Rightarrow> int \<Rightarrow> ticker \<Rightarrow> ticker \<Rightarrow> bool" where
  "idle_ok d now k other \<longleftrightarrow>
     (\<forall>v. tk_tick k = Some v \<longrightarrow> now \<le> v + d \<or> tk_tick other = None \<and> now < tk_next other)"

text \<open>During a round of one kind its ticker does not fire; the other's tick was passed over at most once.\<close>

definition busy_ok :: "int \<Rightarrow> int \<Rightarrow> int \<Rightarrow> ticker \<Rightarrow> ticker \<Rightarrow> bool" where
  "busy_ok d now u k other \<longleftrightarrow>
     u \<le> now \<and> now \<le> u + d \<and> tk_tick k = None \<and> u + d < tk_next k \<and> (\<forall>w. tk_tick other = Some w \<longrightarrow> u \<le> w + d)"

definition poll_inv :: "int \<Rightarrow> poller \<Rightarrow> bool" where
  "poll_inv d s \<longleftrightarrow>
     tick_ok taskPollInterval d (po_now s) (po_task s) \<and> tick_ok structuralPollInterval d (po_now s) (po_struct s) \<and>
     (case po_busy s of
        None \<Rightarrow> idle_ok d (po_now s) (po_task s) (po_struct s) \<and> idle_ok d (po_now s) (po_struct s) (po_task s)
      | Some (PollTasks, u) \<Rightarrow> busy_ok d (po_now s) u (po_task s) (po_struct s)
      | Some (PollStructural, u) \<Rightarrow> busy_ok d (po_now s) u (po_struct s) (po_task s))"

definition prompt :: "int \<Rightarrow> bool" where
  "prompt d \<longleftrightarrow> 0 \<le> d \<and> 3 * d < taskPollInterval"

lemmas poll_times = prompt_def taskPollInterval_def structuralPollInterval_def
lemmas poll_oks = tick_ok_def idle_ok_def busy_ok_def

lemma poll_init_inv: "prompt d \<Longrightarrow> poll_inv d (poll_init t0)"
  by (simp add: poll_inv_def poll_init_def NewTicker_def poll_oks poll_times)

lemma tick_ok_fire:
  "tick_ok period d now k \<Longrightarrow> tk_next k = now \<Longrightarrow> 0 \<le> d \<Longrightarrow> 2 * d < period \<Longrightarrow>
   tk_tick k = None \<and> tk_tick (tick period k) = Some now \<and> tk_next (tick period k) = now + period \<and>
   tick_ok period d now (tick period k)"
  by (auto simp: tick_ok_def tick_def split: option.splits)

lemma tick_ok_take:
  "tick_ok period d now k \<Longrightarrow> tk_tick k = Some v \<Longrightarrow> 0 \<le> d \<Longrightarrow> 3 * d < period \<Longrightarrow>
   tick_ok period d now (take_tick now k) \<and> now + d < tk_next k"
  by (auto simp: tick_ok_def take_tick_def)

lemma loop_step_inv:
  assumes "prompt d" and inv: "poll_inv d s" and "loop_step d s t"
  shows "poll_inv d t"
proof -
  have d: "0 \<le> d" "2 * d < taskPollInterval" "2 * d < structuralPollInterval" "3 * d < taskPollInterval"
    "3 * d < structuralPollInterval"
    using assms(1) by (simp_all add: poll_times)
  have ok: "tick_ok taskPollInterval d (po_now s) (po_task s)" "tick_ok structuralPollInterval d (po_now s) (po_struct s)"
    using inv by (simp_all add: poll_inv_def)
  from assms(3) show ?thesis
  proof cases
    case (loop_wait t')
    with inv d show ?thesis
      by (auto simp: poll_inv_def poll_may_wait_def poll_oks split: option.splits prod.splits poll_kind.splits)
  next
    case loop_fire_task
    with inv tick_ok_fire [OF ok(1) loop_fire_task(2) d(1,2)] d show ?thesis
      by (auto simp: poll_inv_def idle_ok_def busy_ok_def split: option.splits prod.splits poll_kind.splits)
  next
    case loop_fire_struct
    with inv tick_ok_fire [OF ok(2) loop_fire_struct(2) d(1,3)] d show ?thesis
      by (auto simp: poll_inv_def idle_ok_def busy_ok_def split: option.splits prod.splits poll_kind.splits)
  next
    case (loop_task v)
    with inv tick_ok_take [OF ok(1) loop_task(3) d(1,4)] d(1) show ?thesis
      by (auto simp: poll_inv_def idle_ok_def busy_ok_def take_tick_def)
  next
    case (loop_struct v)
    with inv tick_ok_take [OF ok(2) loop_struct(3) d(1,5)] d(1) show ?thesis
      by (auto simp: poll_inv_def idle_ok_def busy_ok_def take_tick_def)
  next
    case (loop_done k u)
    with inv show ?thesis
      by (cases k) (auto simp: poll_inv_def idle_ok_def busy_ok_def)
  qed
qed

interpretation poll_system: invariant_system
  "\<lambda>s. prompt d \<and> s = poll_init t0" "\<lambda>s t. prompt d \<and> loop_step d s t" "poll_inv d"
  for d t0
  by unfold_locales (auto simp: poll_init_inv intro: loop_step_inv)

lemma poll_steps_inv: "prompt d \<Longrightarrow> (loop_step d)\<^sup>*\<^sup>* s t \<Longrightarrow> poll_inv d s \<Longrightarrow> poll_inv d t"
  using poll_system.steps_inv [of d s t] by simp

section \<open>The loop goes on\<close>

definition quiet :: "poller \<Rightarrow> bool" where
  "quiet s \<longleftrightarrow> po_busy s = None \<and> tk_tick (po_task s) = None \<and> tk_tick (po_struct s) = None"

text \<open>The round under way ends and the waiting ticks are served.\<close>

lemma serve_task:
  assumes "po_busy s = None" and "tk_tick (po_task s) = Some v"
  shows "(loop_step d)\<^sup>*\<^sup>* s (s\<lparr>po_task := take_tick (po_now s) (po_task s)\<rparr>)"
proof -
  let ?t = "s\<lparr>po_task := take_tick (po_now s) (po_task s), po_busy := Some (PollTasks, po_now s)\<rparr>"
  have "loop_step d s ?t" using assms by (rule loop_task)
  moreover have "loop_step d ?t (?t\<lparr>po_busy := None\<rparr>)" by (rule loop_done) simp
  moreover have "?t\<lparr>po_busy := None\<rparr> = s\<lparr>po_task := take_tick (po_now s) (po_task s)\<rparr>" using assms(1) by simp
  ultimately show ?thesis by (metis converse_rtranclp_into_rtranclp r_into_rtranclp)
qed

lemma serve_struct:
  assumes "po_busy s = None" and "tk_tick (po_struct s) = Some v"
  shows "(loop_step d)\<^sup>*\<^sup>* s (s\<lparr>po_struct := take_tick (po_now s) (po_struct s)\<rparr>)"
proof -
  let ?t = "s\<lparr>po_struct := take_tick (po_now s) (po_struct s), po_busy := Some (PollStructural, po_now s)\<rparr>"
  have "loop_step d s ?t" using assms by (rule loop_struct)
  moreover have "loop_step d ?t (?t\<lparr>po_busy := None\<rparr>)" by (rule loop_done) simp
  moreover have "?t\<lparr>po_busy := None\<rparr> = s\<lparr>po_struct := take_tick (po_now s) (po_struct s)\<rparr>" using assms(1) by simp
  ultimately show ?thesis by (metis converse_rtranclp_into_rtranclp r_into_rtranclp)
qed

lemma poll_quiets: "\<exists>t. (loop_step d)\<^sup>*\<^sup>* s t \<and> quiet t"
proof -
  obtain a where a: "(loop_step d)\<^sup>*\<^sup>* s a" "po_busy a = None"
  proof (cases "po_busy s")
    case None
    with that [of s] show thesis by simp
  next
    case (Some ku)
    then have "loop_step d s (s\<lparr>po_busy := None\<rparr>)" by (cases ku) (simp add: loop_done)
    with that [of "s\<lparr>po_busy := None\<rparr>", OF r_into_rtranclp] show thesis by simp
  qed
  obtain b where b: "(loop_step d)\<^sup>*\<^sup>* a b" "po_busy b = None" "tk_tick (po_task b) = None"
  proof (cases "tk_tick (po_task a)")
    case None
    with that [of a] a show thesis by simp
  next
    case (Some v)
    with that [OF serve_task] a show thesis by (simp add: take_tick_def)
  qed
  obtain c where "(loop_step d)\<^sup>*\<^sup>* b c" "quiet c"
  proof (cases "tk_tick (po_struct b)")
    case None
    with that [of b] b show thesis by (simp add: quiet_def)
  next
    case (Some v)
    with that [OF serve_struct] b show thesis by (simp add: take_tick_def quiet_def)
  qed
  with a(1) b(1) show ?thesis by (meson rtranclp_trans)
qed

text \<open>From a quiet state the next tick is served when it fires.\<close>

lemma poll_round:
  assumes "prompt d" and "poll_inv d s" and "quiet s"
  shows "\<exists>t. (loop_step d)\<^sup>*\<^sup>* s t \<and> quiet t \<and>
    (if tk_next (po_task s) \<le> tk_next (po_struct s)
     then tk_next (po_task t) = tk_next (po_task s) + taskPollInterval \<and> tk_next (po_struct t) = tk_next (po_struct s)
     else tk_next (po_struct t) = tk_next (po_struct s) + structuralPollInterval \<and> tk_next (po_task t) = tk_next (po_task s))"
proof -
  define u where "u = min (tk_next (po_task s)) (tk_next (po_struct s))"
  have "po_now s \<le> u" using assms(2) by (auto simp: u_def poll_inv_def tick_ok_def)
  then have 1: "loop_step d s (s\<lparr>po_now := u\<rparr>)"
    using assms(3) by (intro loop_wait) (simp add: poll_may_wait_def quiet_def u_def)
  show ?thesis
  proof (cases "tk_next (po_task s) \<le> tk_next (po_struct s)")
    case True
    let ?a = "s\<lparr>po_now := u, po_task := tick taskPollInterval (po_task s)\<rparr>"
    have 2: "loop_step d (s\<lparr>po_now := u\<rparr>) ?a" using loop_fire_task [of "s\<lparr>po_now := u\<rparr>" d] True by (simp add: u_def)
    have "(loop_step d)\<^sup>*\<^sup>* ?a (?a\<lparr>po_task := take_tick u (po_task ?a)\<rparr>)"
      using serve_task [of ?a "tk_next (po_task s)" d] assms(3) by (simp add: quiet_def tick_def)
    with 1 2 have "(loop_step d)\<^sup>*\<^sup>* s (?a\<lparr>po_task := take_tick u (po_task ?a)\<rparr>)"
      by (meson converse_rtranclp_into_rtranclp)
    then show ?thesis using True assms(3)
      by (intro exI [of _ "?a\<lparr>po_task := take_tick u (po_task ?a)\<rparr>"]) (simp add: quiet_def take_tick_def tick_def)
  next
    case False
    let ?a = "s\<lparr>po_now := u, po_struct := tick structuralPollInterval (po_struct s)\<rparr>"
    have 2: "loop_step d (s\<lparr>po_now := u\<rparr>) ?a" using loop_fire_struct [of "s\<lparr>po_now := u\<rparr>" d] False by (simp add: u_def)
    have "(loop_step d)\<^sup>*\<^sup>* ?a (?a\<lparr>po_struct := take_tick u (po_struct ?a)\<rparr>)"
      using serve_struct [of ?a "tk_next (po_struct s)" d] assms(3) by (simp add: quiet_def tick_def)
    with 1 2 have "(loop_step d)\<^sup>*\<^sup>* s (?a\<lparr>po_struct := take_tick u (po_struct ?a)\<rparr>)"
      by (meson converse_rtranclp_into_rtranclp)
    then show ?thesis using False assms(3)
      by (intro exI [of _ "?a\<lparr>po_struct := take_tick u (po_struct ?a)\<rparr>"]) (simp add: quiet_def take_tick_def tick_def)
  qed
qed

lemma poll_goes_on:
  assumes "prompt d"
  shows "poll_inv d s \<Longrightarrow> quiet s \<Longrightarrow>
    \<exists>t. (loop_step d)\<^sup>*\<^sup>* s t \<and> quiet t \<and> T \<le> tk_next (po_task t) \<and> T \<le> tk_next (po_struct t)"
proof (induction "nat (T - tk_next (po_task s)) + nat (T - tk_next (po_struct s))" arbitrary: s rule: less_induct)
  case less
  show ?case
  proof (cases "T \<le> min (tk_next (po_task s)) (tk_next (po_struct s))")
    case True
    with less.prems show ?thesis by (intro exI [of _ s]) simp
  next
    case False
    from poll_round [OF assms less.prems] obtain t where t: "(loop_step d)\<^sup>*\<^sup>* s t" "quiet t"
      "if tk_next (po_task s) \<le> tk_next (po_struct s)
       then tk_next (po_task t) = tk_next (po_task s) + taskPollInterval \<and> tk_next (po_struct t) = tk_next (po_struct s)
       else tk_next (po_struct t) = tk_next (po_struct s) + structuralPollInterval \<and> tk_next (po_task t) = tk_next (po_task s)"
      by blast
    have "nat (T - tk_next (po_task t)) + nat (T - tk_next (po_struct t)) <
        nat (T - tk_next (po_task s)) + nat (T - tk_next (po_struct s))"
      using t(3) False by (auto simp: poll_times min_def split: if_splits)
    from less.hyps [OF this poll_steps_inv [OF assms t(1) less.prems(1)] t(2)] t(1) show ?thesis
      by (meson rtranclp_trans)
  qed
qed



end
