(* ===== verification/DockerClient.thy ===== *)
theory DockerClient
  imports InspectProps
begin

text \<open>
  \<open>swarmSource\<close> and its adapter \<open>mobySource\<close> in \<open>internal/docker/inspect.go\<close>.  The Docker client is the
  argument \<open>cli\<close>: what its list calls return at the time of a poll, \<open>None\<close> for an error.  The list of
  networks takes filters, a key and a value each.
\<close>

record 'o docker_client =
  NodeList :: "'o node list option"
  ServiceList :: "'o service list option"
  TaskList :: "'o task list option"
  NetworkList :: "(string \<times> string) list \<Rightarrow> 'o summary list option"

record 'o swarmSource =
  src_Nodes :: "'o node list option"
  src_Services :: "'o service list option"
  src_Tasks :: "'o task list option"
  src_Networks :: "'o summary list option"

definition moby_Nodes :: "'o docker_client \<Rightarrow> 'o node list option" where
  "moby_Nodes cli = (case NodeList cli of None \<Rightarrow> None | Some items \<Rightarrow> Some items)"

definition moby_Services :: "'o docker_client \<Rightarrow> 'o service list option" where
  "moby_Services cli = (case ServiceList cli of None \<Rightarrow> None | Some items \<Rightarrow> Some items)"

definition moby_Tasks :: "'o docker_client \<Rightarrow> 'o task list option" where
  "moby_Tasks cli = (case TaskList cli of None \<Rightarrow> None | Some items \<Rightarrow> Some items)"

definition moby_Networks :: "'o docker_client \<Rightarrow> 'o summary list option" where
  "moby_Networks cli = (case NetworkList cli [(''scope'', ''swarm'')] of None \<Rightarrow> None | Some items \<Rightarrow> Some items)"

definition mobySource :: "'o docker_client \<Rightarrow> 'o swarmSource" where
  "mobySource cli =
     \<lparr>src_Nodes = moby_Nodes cli, src_Services = moby_Services cli, src_Tasks = moby_Tasks cli,
      src_Networks = moby_Networks cli\<rparr>"

text \<open>\<open>newMobySource\<close>: the argument is the client that the library opened, if it could.\<close>

definition newMobySource :: "'o docker_client option \<Rightarrow> 'o swarmSource option" where
  "newMobySource opened = (case opened of None \<Rightarrow> None | Some cli \<Rightarrow> Some (mobySource cli))"

text \<open>The two polls of the inspector, on a source.\<close>

definition structural_poll ::
  "'o api_view \<Rightarrow> config \<Rightarrow> 'o swarmSource \<Rightarrow> 'o inspector \<Rightarrow> (bool \<times> 'o inspector) go" where
  "structural_poll api c src st = refreshStructural api c (src_Nodes src) (src_Services src) (src_Networks src) st"

definition tasks_poll ::
  "'o api_view \<Rightarrow> config \<Rightarrow> int \<Rightarrow> string list \<times> string list \<times> string list \<Rightarrow> 'o swarmSource \<Rightarrow> 'o inspector
     \<Rightarrow> (bool \<times> 'o inspector) go" where
  "tasks_poll api c now orders src st = refreshTasks api c now orders (src_Tasks src) st"

section \<open>What a structural poll stores\<close>

lemma store_slice_heap:
  "heap (store_slice g (Some xs) st) g (next_addr st) = xs"
  "current (store_slice g (Some xs) st) g = Some (next_addr st)"
  "next_addr (store_slice g (Some xs) st) = Suc (next_addr st)"
  by (simp_all add: store_slice_def)

lemma store_slice_other:
  "g' \<noteq> g \<Longrightarrow> heap (store_slice g xs st) g' = heap st g'"
  "g' \<noteq> g \<Longrightarrow> current (store_slice g xs st) g' = current st g'"
  by (simp_all add: store_slice_def split: option.split)

text \<open>The contract of the filters: a key that is filtered for has the value that was asked for.\<close>

definition filters_ok :: "('o \<Rightarrow> string \<Rightarrow> string) \<Rightarrow> 'o docker_client \<Rightarrow> bool" where
  "filters_ok attr cli \<longleftrightarrow>
     (\<forall>fs nets n k v. NetworkList cli fs = Some nets \<and> n \<in> set nets \<and> (k, v) \<in> set fs \<longrightarrow> attr (nw_rest n) k = v)"


section \<open>Witness\<close>

text \<open>A daemon with a swarm network, the ingress network and a local bridge, which honours the filters.\<close>

definition demo_networks :: "string summary list" where
  "demo_networks =
     [\<lparr>nw_Name = ''web'', nw_Labels = None, nw_rest = ''swarm''\<rparr>,
      \<lparr>nw_Name = ''ingress'', nw_Labels = None, nw_rest = ''swarm''\<rparr>,
      \<lparr>nw_Name = ''bridge'', nw_Labels = None, nw_rest = ''local''\<rparr>]"

definition demo_attr :: "string \<Rightarrow> string \<Rightarrow> string" where
  "demo_attr rest k = (if k = ''scope'' then rest else [])"

definition demo_client :: "string docker_client" where
  "demo_client =
     \<lparr>NodeList = Some [], ServiceList = Some [], TaskList = Some [],
      NetworkList = (\<lambda>fs. Some (filter (\<lambda>n. list_all (\<lambda>(k, v). demo_attr (nw_rest n) k = v) fs) demo_networks))\<rparr>"

definition demo_view :: "string api_view" where
  "demo_view =
     \<lparr>viewNetwork = (\<lambda>n. VString (nw_Name n)), viewNode = (\<lambda>_. VString []), viewService = (\<lambda>_. VString []),
      viewTask = (\<lambda>_. VString []), elemType = (\<lambda>_. TString)\<rparr>"

lemma demo_filters: "filters_ok demo_attr demo_client"
  by (fastforce simp: filters_ok_def demo_client_def list_all_iff)


end
