(* ===== verification/Lifecycle.thy ===== *)
theory Lifecycle
  imports Prelude
begin

text \<open>
  The life of the process after start-up, the second half of \<open>main\<close> in \<open>cmd/server/main.go\<close>: the
  serving goroutine, the wait for a signal, the shutdown with its deadline, and the exit code.
  \<open>http.Server\<close> behaves as documented: \<open>Shutdown\<close> closes the listener, which makes \<open>ListenAndServe\<close>
  return \<open>ErrServerClosed\<close>, waits until no request is under way (WebSocket connections have been
  taken over from the server and do not count), and gives up when its context ends.  Times are
  nanoseconds.
\<close>

datatype serve_error = ErrServerClosed | ListenError string

datatype main_pc = MWait | MSignalled | MShutdown int | MExited nat

text \<open>\<open>lf_stop\<close> is when \<open>Shutdown\<close> was called, \<open>lf_failed\<close> that \<open>ListenAndServe\<close> returned a real error.\<close>

record life =
  lf_now :: int
  lf_main :: main_pc
  lf_serving :: bool
  lf_active :: nat
  lf_stop :: "int option"
  lf_failed :: bool

definition shutdownTimeout :: int where
  "shutdownTimeout = 8 * 1000000000"

definition life_init :: "int \<Rightarrow> life" where
  "life_init t0 =
     \<lparr>lf_now = t0, lf_main = MWait, lf_serving = True, lf_active = 0, lf_stop = None, lf_failed = False\<rparr>"

text \<open>The serving goroutine after \<open>ListenAndServe\<close> has returned: \<open>log.Fatal\<close> exits with 1.\<close>

definition serve_returned :: "serve_error \<Rightarrow> life \<Rightarrow> life" where
  "serve_returned e s =
     (if e \<noteq> ErrServerClosed then s\<lparr>lf_serving := False, lf_failed := True, lf_main := MExited 1\<rparr>
      else s\<lparr>lf_serving := False\<rparr>)"

definition exited :: "life \<Rightarrow> bool" where
  "exited s = (case lf_main s of MExited c \<Rightarrow> True | _ \<Rightarrow> False)"

text \<open>Whether \<open>Shutdown\<close> has been called, and the deadline it then has.\<close>

definition due :: "life \<Rightarrow> int option" where
  "due s = (case lf_main s of MShutdown dl \<Rightarrow> Some dl | _ \<Rightarrow> None)"

inductive life_step :: "life \<Rightarrow> life \<Rightarrow> bool" where
  life_time: "\<not> exited s \<Longrightarrow> lf_now s \<le> t \<Longrightarrow> (case due s of None \<Rightarrow> True | Some dl \<Rightarrow> t \<le> dl) \<Longrightarrow>
     life_step s (s\<lparr>lf_now := t\<rparr>)"
| life_request: "\<not> exited s \<Longrightarrow> due s = None \<Longrightarrow> lf_serving s \<Longrightarrow> life_step s (s\<lparr>lf_active := Suc (lf_active s)\<rparr>)"
| life_request_done: "\<not> exited s \<Longrightarrow> lf_active s = Suc n \<Longrightarrow> life_step s (s\<lparr>lf_active := n\<rparr>)"
| life_listen_error: "\<not> exited s \<Longrightarrow> due s = None \<Longrightarrow> lf_serving s \<Longrightarrow>
     life_step s (serve_returned (ListenError e) s)"
| life_signal: "lf_main s = MWait \<Longrightarrow> life_step s (s\<lparr>lf_main := MSignalled\<rparr>)"
| life_shutdown: "lf_main s = MSignalled \<Longrightarrow>
     life_step s (s\<lparr>lf_main := MShutdown (lf_now s + shutdownTimeout), lf_stop := Some (lf_now s)\<rparr>)"
| life_closed: "lf_main s = MShutdown dl \<Longrightarrow> lf_serving s \<Longrightarrow> life_step s (serve_returned ErrServerClosed s)"
| life_stopped: "lf_main s = MShutdown dl \<Longrightarrow> lf_active s = 0 \<Longrightarrow> life_step s (s\<lparr>lf_main := MExited 0\<rparr>)"
| life_forced: "lf_main s = MShutdown dl \<Longrightarrow> dl \<le> lf_now s \<Longrightarrow> life_step s (s\<lparr>lf_main := MExited 1\<rparr>)"

section \<open>The invariant\<close>

text \<open>What holds when \<open>Shutdown\<close> has been called at time \<open>g\<close>, and when it has not.\<close>

definition stopping_ok :: "int \<Rightarrow> life \<Rightarrow> bool" where
  "stopping_ok g s \<longleftrightarrow>
     \<not> lf_failed s \<and> g \<le> lf_now s \<and> lf_now s \<le> g + shutdownTimeout \<and>
     (lf_main s = MShutdown (g + shutdownTimeout) \<or> lf_main s = MExited 0 \<and> lf_active s = 0 \<or>
      lf_main s = MExited 1 \<and> lf_now s = g + shutdownTimeout)"

definition running_ok :: "life \<Rightarrow> bool" where
  "running_ok s \<longleftrightarrow>
     (\<not> lf_failed s \<and> lf_serving s \<and> lf_main s \<in> {MWait, MSignalled} \<or> lf_failed s \<and> lf_main s = MExited 1)"

definition life_inv :: "life \<Rightarrow> bool" where
  "life_inv s = (case lf_stop s of None \<Rightarrow> running_ok s | Some g \<Rightarrow> stopping_ok g s)"

lemma running_step: "running_ok s \<Longrightarrow> lf_stop s = None \<Longrightarrow> life_step s t \<Longrightarrow> life_inv t"
  by (erule life_step.cases)
    (auto simp: life_inv_def running_ok_def stopping_ok_def serve_returned_def exited_def due_def shutdownTimeout_def)

lemma stopping_step: "stopping_ok g s \<Longrightarrow> lf_stop s = Some g \<Longrightarrow> life_step s t \<Longrightarrow> life_inv t"
  by (erule life_step.cases)
    (auto simp: life_inv_def stopping_ok_def serve_returned_def exited_def due_def)

lemma life_step_inv: "life_inv s \<Longrightarrow> life_step s t \<Longrightarrow> life_inv t"
  using running_step stopping_step unfolding life_inv_def [of s] by (auto split: option.splits)

interpretation life_system: invariant_system "\<lambda>s. s = life_init t0" life_step life_inv
  for t0
proof
  show "s = life_init t0 \<Longrightarrow> life_inv s" for s by (simp add: life_init_def life_inv_def running_ok_def)
qed (rule life_step_inv)

text \<open>A shutdown ends, if need be at its deadline.\<close>

lemma shutdown_ends:
  assumes "lf_main s = MShutdown dl" and "lf_now s \<le> dl"
  shows "\<exists>t. life_step\<^sup>*\<^sup>* s t \<and> exited t"
proof -
  let ?u = "s\<lparr>lf_now := dl\<rparr>"
  have "life_step s ?u" using life_time [of s dl] assms by (simp add: exited_def due_def)
  moreover have "life_step ?u (?u\<lparr>lf_main := MExited 1\<rparr>)" using life_forced [of ?u dl] assms by simp
  ultimately have "life_step\<^sup>*\<^sup>* s (?u\<lparr>lf_main := MExited 1\<rparr>)" by (rule converse_rtranclp_into_rtranclp [OF _ r_into_rtranclp])
  moreover have "exited (?u\<lparr>lf_main := MExited 1\<rparr>)" by (simp add: exited_def)
  ultimately show ?thesis by blast
qed

text \<open>
  C31: the server shuts down gracefully: once \<open>Shutdown\<close> has been called the process can always end and
  is gone at most eight seconds later, with exit code 0 only when every request was finished, and
  with 1 only when the eight seconds had passed; closing the listener is never mistaken for a
  failure.  Before that the process ends only because it could not listen, with code 1.
\<close>

theorem graceful_shutdown:
  assumes "life_step\<^sup>*\<^sup>* (life_init t0) s"
  shows "case lf_stop s of
      Some g \<Rightarrow> lf_now s \<le> g + shutdownTimeout \<and> \<not> lf_failed s \<and> (\<exists>t. life_step\<^sup>*\<^sup>* s t \<and> exited t) \<and>
        (lf_main s = MExited 0 \<and> lf_active s = 0 \<or> lf_main s = MExited 1 \<and> lf_now s = g + shutdownTimeout \<or> \<not> exited s)
    | None \<Rightarrow> lf_failed s \<and> lf_main s = MExited 1 \<or> \<not> lf_failed s \<and> \<not> exited s"
proof (cases "lf_stop s")
  case None
  with life_system.reachable_inv [OF refl assms] show ?thesis
    by (auto simp: life_inv_def running_ok_def exited_def)
next
  case (Some g)
  with life_system.reachable_inv [OF refl assms] have ok: "stopping_ok g s" by (simp add: life_inv_def)
  have "\<exists>t. life_step\<^sup>*\<^sup>* s t \<and> exited t"
  proof (cases "exited s")
    case False
    with ok have "lf_main s = MShutdown (g + shutdownTimeout)" "lf_now s \<le> g + shutdownTimeout"
      by (auto simp: stopping_ok_def exited_def)
    then show ?thesis by (rule shutdown_ends)
  qed blast
  with ok Some show ?thesis by (auto simp: stopping_ok_def exited_def)
qed

definition demo_stopping :: life where
  "demo_stopping =
     \<lparr>lf_now = 0, lf_main = MShutdown shutdownTimeout, lf_serving = True, lf_active = 0, lf_stop = Some 0, lf_failed = False\<rparr>"

theorem graceful_shutdown_witness: "\<exists>t. life_step\<^sup>*\<^sup>* demo_stopping t \<and> exited t"
proof -
  have "life_step (life_init 0) ((life_init 0)\<lparr>lf_main := MSignalled\<rparr>)" by (rule life_signal) (simp add: life_init_def)
  moreover have "life_step ((life_init 0)\<lparr>lf_main := MSignalled\<rparr>) demo_stopping"
    using life_shutdown [of "(life_init 0)\<lparr>lf_main := MSignalled\<rparr>"] by (simp add: life_init_def demo_stopping_def)
  ultimately have "life_step\<^sup>*\<^sup>* (life_init 0) demo_stopping" by simp
  from graceful_shutdown [OF this] show ?thesis by (simp add: demo_stopping_def)
qed

end
