(* ===== verification/Spec2Isabelle.thy ===== *)
theory Spec2Isabelle
  imports Program Keepalive Polling DockerClient Lifecycle
begin

text \<open>
  A verification of swarm-visualizer, a Go server that polls the Docker API of a swarm, removes
  sensitive data from what it gets, and sends JSON snapshots of the swarm to browsers over
  WebSockets, optionally behind an OpenID Connect login.

  \<^bold>\<open>The parts of the program and how they interact.\<close>  \<open>main\<close> (\<open>cmd/server/main.go\<close>) loads the
  configuration from the environment (\<open>internal/config/config.go\<close>), registers the static files, the
  authentication routes (\<open>internal/oauth\<close>), the WebSocket route (\<open>internal/docker/handlers.go\<close>) and
  the readiness endpoint, and starts the goroutines.  The inspector goroutine
  (\<open>internal/docker/inspect.go\<close>) polls nodes, services, networks and tasks, sanitizes them by
  switches and labels, assembles a snapshot, zeroes what the sensitive paths name by reflection
  (\<open>internal/utils.go\<close>), and hands a changed snapshot to the hub.  The hub keeps the newest
  snapshot, fans it out to its clients and never waits for one.  A connection is registered only
  after its ID token has been validated (\<open>internal/oauth/idtoken.go\<close>) with a key of the provider
  (\<open>internal/oauth/jwks.go\<close>).  \<open>cmd/healthcheck/main.go\<close> is the probe of the container.

  \<^bold>\<open>The theories.\<close>
  \<^item> \<open>Prelude\<close>: Go's panics as a sum type, loops that may panic, and the interfaces as locales:
    \<open>invariant_system\<close> (a state machine with an invariant), \<open>simulation\<close> (one that implements an
    abstract machine) and \<open>redaction\<close> (passes that only remove information).
  \<^item> \<open>GoStrings\<close>, \<open>GoNet\<close>, \<open>GoReflect\<close>: what the program uses of \<open>strings\<close>, \<open>strconv\<close>, \<open>net\<close> and
    \<open>reflect\<close>, with addressability and unexported fields, on which a write by reflection panics.
  \<^item> \<open>ClearPath\<close>, \<open>ClearScheme\<close>, \<open>ClearLaws\<close>, \<open>ClearProps\<close>: \<open>splitPath\<close>, \<open>findStructFieldByJSONTag\<close>,
    \<open>clearRecursive\<close> and \<open>ClearByPath\<close> of \<open>internal/utils.go\<close>.  Shown: everything a path names is
    zero afterwards and nothing else has changed, an error changes nothing, which paths can panic,
    passes are idempotent and do not undo each other (the interpretation of \<open>redaction\<close>).
  \<^item> \<open>Config\<close>: \<open>LoadConfig\<close> and its helpers.  Shown: every configuration that loads is well-formed;
    list settings and trusted proxies mean what they should, with one exception that is proved.
  \<^item> \<open>DockerClient\<close>: \<open>swarmSource\<close> and \<open>mobySource\<close> of \<open>inspect.go\<close>, the adapter to the Docker client.
    Shown: what a poll stores of the networks, given that the daemon honours the filters it is sent.
  \<^item> \<open>Polling\<close>: the two tickers and the \<open>select\<close> loop of \<open>inspectSwarmServices\<close>, with time.  Shown: the
    data of either kind is never older than its period and two rounds, and polling never stops.
  \<^item> \<open>Hub\<close>, \<open>HubInv\<close>, \<open>HubProps\<close>, \<open>HubBound\<close>: the hub of \<open>handlers.go\<close>.  Its goroutines are one step
    relation (\<open>hub_step\<close>): a critical section is one step, but the \<open>select\<close> statements of the fan-out
    are steps of their own.  Shown for every interleaving: no panic, no lost or reordered frame, the
    newest frame wins, the cap holds, no data without a valid token, and the fan-out ends after at
    most \<open>6 * n + 5\<close> steps whatever the clients do.
  \<^item> \<open>Keepalive\<close>: pings, pongs and the read deadline of one connection (\<open>handleConnections\<close> and
    \<open>writePump\<close>), with time.  Shown: a peer that answers is never reaped, and one that does not is.
  \<^item> \<open>Sanitize\<close>, \<open>Tasks\<close>: the fetchers and sanitizers of \<open>inspect.go\<close> against a redaction policy, and
    \<open>getTasksInfo\<close> with its cache of stopped tasks (an interpretation of \<open>invariant_system\<close>).
  \<^item> \<open>Inspect\<close>, \<open>InspectInv\<close>, \<open>InspectProps\<close>: the closures and the loop of \<open>inspectSwarmServices\<close>.  The
    slices live in a heap (\<open>heap\<close>), because the cached groups, the snapshot being built and the one
    published last share them and \<open>ClearByPath\<close> writes through them.  Shown: only cleared snapshots
    are sent, and the snapshot kept for comparison stays equal to the bytes that were sent.
  \<^item> \<open>KeyStore\<close>, \<open>IdToken\<close>, \<open>OAuth\<close>, \<open>OAuthProps\<close>, \<open>OAuthStart\<close>: the files of \<open>internal/oauth\<close>.  Shown:
    exactly which tokens are accepted, exactly when a callback starts a session, that a login works
    and that its random strings keep their entropy, that clients cannot forge the address they are
    rate limited by, that the key set is replaced atomically, and what a started authenticator has.
  \<^item> \<open>OAuthLimits\<close>: the rate limiters over a sequence of requests and cleanup rounds.  Shown: dropping
    idle limiters cannot be observed.
  \<^item> \<open>Server\<close>, \<open>ServerProps\<close>: \<open>main\<close>, the route table, readiness and the probe, and the
    authentication routes with their rate limiters.
  \<^item> \<open>Lifecycle\<close>: the second half of \<open>main\<close>, the serving goroutine, the signal, the shutdown and the
    exit code.  Shown: the process is gone eight seconds after the shutdown began at the latest.
  \<^item> \<open>System\<close>: inspector and hub together, as \<open>RegisterDockerHandlers\<close> starts them, as an
    interpretation of \<open>simulation\<close> with an abstract feed.
  \<^item> \<open>Program\<close>: all of it together, as \<open>main\<close> wires it.  The hub relies on authentication through the
    locale \<open>token_validator\<close>, under which the invariant of the program is proved once (by a sublocale
    declaration it gives an \<open>invariant_system\<close>); the authenticator, with its logins, key refreshes and cleanups
    in between, is an interpretation of it.  Below, what follows for every frame on the wire.

  \<^bold>\<open>Bounds and termination.\<close>  All operations are total functions; loops over slices and maps are
  recursions over lists, so there is no fuel.  \<open>clearRecursive\<close> recurses on the parts of
  the path.  Goroutines that run for ever are step relations, and what they achieve is stated
  as reachability (\<open>process_delivers_newest\<close>) or as a bound on the number of steps
  (\<open>hub_broadcast_terminates\<close>).  Integers that Go bounds are checked where they are read (\<open>Atoi\<close>),
  differences of times saturate as \<open>Time.Sub\<close> does, bytes of addresses and random strings are words.

  \<^bold>\<open>Parameters.\<close>  The environment and files; the answers of the Docker API (\<open>None\<close> for an error); how
  an API value looks through \<open>reflect\<close> (\<open>api_view\<close>, with \<open>views_ok\<close>: values have their declared
  types); \<open>json.Marshal\<close>; the order in which Go iterates over a map (\<open>orders_ok\<close>: it lists the keys);
  the JWT library (\<open>jwt_lib\<close>), certificates (\<open>certs\<close>), the oauth2 library, the rate limiter and the
  random source (\<open>auth_deps\<close>); the provider's documents; the WebSocket upgrade; time.  A slice that
  the Docker API returns without an error is not nil.

  \<^bold>\<open>Contracts of code outside the repository.\<close>  \<open>views_ok\<close> and \<open>orders_ok\<close> above; \<open>filters_ok\<close> (the Docker
  daemon returns only networks that match the filters); \<open>refills\<close> (a token bucket that was left alone
  long enough behaves like a new one); \<open>provider_starts\<close> (the document fetched at start-up is one that
  the provider serves); an upgrade succeeds only if \<open>CheckOrigin\<close> accepts the request.

  \<^bold>\<open>Not modelled.\<close>  The bodies and headers of HTTP responses beyond status, cookies and location, the
  static files, TLS and the timeouts of \<open>http.Server\<close> belong to the HTTP library.  Time is modelled where
  the program depends on it (\<open>Keepalive\<close>, \<open>Polling\<close>, \<open>Lifecycle\<close>, \<open>OAuthLimits\<close>, \<open>KeyStore\<close>, \<open>Tasks\<close>); in the
  hub and in the composed program a read or a write may fail and a poll may happen at any time, which
  includes every timing.  In \<open>Program\<close> a token validation is one step; the interleavings inside a key
  lookup are those of \<open>KeyStore\<close>.  A panic of the inspector is not a step of the composed program (the
  process would end there).  Log messages have no effect.  Pointers below the elements of a slice (a
  task's container spec) are part of the element; a task that stays in the cache shares them with earlier snapshots, but they are written
  only by \<open>sanitizeTasks\<close> and \<open>ClearByPath\<close>, which are idempotent.  The web front end is not Go.
\<close>

section \<open>From the environment to the wire\<close>

text \<open>
  C1: the server as a whole, from the environment it is started with to the bytes on the wire.
  Whatever the Docker API answers, whatever clients and provider do and however the goroutines are
  scheduled (connections, snapshots, fan-out, logins, key refreshes, limiter cleanups), the goroutines
  of the hub and the token check never panic (for the inspector see \<open>publish_returns\<close>), and every
  frame written to a connection is the encoding of a snapshot in which everything named by a
  built-in sensitive path or by \<open>SENSITIVE_DATA_PATHS\<close> is zero.  The connection
  passed the origin check; and with \<open>ENABLE_AUTHN\<close> its request carried a token that was verified with
  an RSA key from a document the provider has served, issued for this client and, where an issuer is
  known, by that issuer.
\<close>

theorem program_end_to_end:
  assumes "server_main out env readFile = Inr sv" and "provider_starts out provider" and "views_ok api"
    and "\<And>j. upgrades j \<Longrightarrow> CheckOrigin urlHost (Header (req j) ''Origin'') (host j)"
    and "program_reachable api marshal upgrades req lib provider deps out sv w"
  shows "panicked (pg_hub w) = None \<and>
    (f \<in> set (written (pg_hub w) k) \<longrightarrow>
      (\<exists>v. marshal v = Some f \<and> type_of v = data_type api \<and>
        (\<forall>p \<in> set (builtinSensitivePaths @ splitList (env ''SENSITIVE_DATA_PATHS'')).
           cleared (splitPath p) (VPtr (data_type api) (Some v)))) \<and>
      CheckOrigin urlHost (Header (req k) ''Origin'') (host k) \<and>
      (env ''ENABLE_AUTHN'' = ''true'' \<longrightarrow>
        token_proof lib (out_certs out) provider (OAuthConfig (cfg (sv_hub sv))) (pg_now w) (req k)))"
proof -
  let ?c = "cfg (sv_hub sv)" and ?valid = "\<lambda>j. pg_verdict w j = Some True"
  note inv = program_reachable_inv [OF assms(1-3,5), unfolded program_inv_def]
  then have proc: "process_inv api marshal ?c ?valid (pg_proc w)" and up: "upgrade_ok upgrades (pg_hub w)"
    and proven: "?valid j \<Longrightarrow> token_proof lib (out_certs out) provider (OAuthConfig ?c) (pg_now w) (req j)" for j
    by blast+
  have "panicked (pg_hub w) = None"
    using proc hub_invD(1) [of ?c ?valid "pg_hub w"] by (simp add: process_inv_def pg_hub_def)
  moreover have "clean_frame api marshal ?c f" "CheckOrigin urlHost (Header (req k) ''Origin'') (host k)"
    "AuthEnabled ?c \<longrightarrow> ?valid k" if "f \<in> set (written (pg_hub w) k)"
  proof -
    have some: "written (pg_hub w) k \<noteq> []" using that by auto
    show "clean_frame api marshal ?c f" using written_frame_clean [OF proc] that by (simp add: pg_hub_def)
    show "CheckOrigin urlHost (Header (req k) ''Origin'') (host k)" using assms(4) upgrade_okD(3) [OF up some] .
    show "AuthEnabled ?c \<longrightarrow> ?valid k" using written_ahead(2) [OF proc, of k] some by (simp add: pg_hub_def)
  qed
  ultimately show ?thesis
    using proven [of k] server_main_config [OF assms(1)] by (simp add: clean_frame_def)
qed

theorem program_end_to_end_witness:
  "\<exists>(sv :: (nat, nat) server) (w :: (unit, (nat, nat) authenticator option) program).
     server_main run_outside run_env (\<lambda>_. None) = Inr sv \<and> written (pg_hub w) 0 = [''frame''] \<and>
     (\<exists>v. demo_marshal v = Some ''frame'' \<and> cleared (splitPath ''nodes.*.key'') (VPtr (data_type demo_api) (Some v))) \<and>
     token_proof demo_lib demo_certs (\<lambda>_. Some run_jwks) (OAuthConfig (cfg (sv_hub sv))) (pg_now w) (run_req 0)"
proof -
  obtain sv :: "(nat, nat) server" where sv: "server_main run_outside run_env (\<lambda>_. None) = Inr sv"
    "cfg (sv_hub sv) = demo_conf" "sv_auth sv = Some run_auth" by (rule run_server)
  let ?w = "run_at True demo_process"
  have frame: "written (pg_hub ?w) 0 = [''frame'']" by (simp add: pg_hub_def run_at_def demo_process_frames)
  have env: "run_env ''ENABLE_AUTHN'' = ''true''" "splitList (run_env ''SENSITIVE_DATA_PATHS'') = [''nodes.*.key'']"
    by code_simp+
  have "CheckOrigin (\<lambda>_. None) (Header (run_req j) ''Origin'') []" for j by (simp add: CheckOrigin_def run_req_def)
  from program_end_to_end [OF sv(1) run_provider demo_views_ok this run_reachable [OF sv(2,3)], of "''frame''" 0] frame env
  have "\<exists>v. demo_marshal v = Some ''frame'' \<and> cleared (splitPath ''nodes.*.key'') (VPtr (data_type demo_api) (Some v))"
    "token_proof demo_lib demo_certs (\<lambda>_. Some run_jwks) (OAuthConfig (cfg (sv_hub sv))) (pg_now ?w) (run_req 0)"
    by (auto simp: run_outside_def)
  with sv(1) frame show ?thesis by blast
qed

end
